theory Spec2Isabelle
  imports Main
begin

section \<open>Values and external calls\<close>

text \<open>
  The server keeps a pool of puppeteer browsers (class \<open>BrowserPool\<close>), scrapes one page
  per ticker with a browser of the pool (\<open>scrapeDividendData\<close>) and caches the result.
  Browsers, pages and pending promises are JavaScript objects: the model names each by a
  number. A thrown \<open>Error\<close> is its message.
\<close>

type_synonym browser = nat
type_synonym page = nat
type_synonym caller = nat
type_synonym error = string

text \<open>
  A text that the program transforms or compares (a ticker, the text of a table cell, and
  what is built from them: a cache key, a URL, a field of the result) is the list of its
  code points, so that \<open>trim\<close> and \<open>toUpperCase\<close> are what JavaScript defines on every
  text; \<open>js\<close> writes such a text from its ASCII letters. The messages of errors, the
  selectors and the fixed texts of the replies, which the program passes on or searches for
  an ASCII word, stay HOL strings.
\<close>

type_synonym jstring = "nat list"

definition js :: "string \<Rightarrow> jstring" where
  "js s = map of_char s"

text \<open>
  Calls that leave the program are written to a log of effects, in the order in which the
  code makes them.
\<close>

datatype effect =
    Launch
  | Pages browser
  | ClosePage browser page
  | CloseBrowser browser
  | LogError error
  | AcquireBrowser
  | NewPage browser
  | SetUserAgent
  | SetViewport
  | Goto jstring
  | Sleep nat
  | WaitForTable
  | Evaluate
  | ReleaseBrowser browser
  | CacheGet jstring
  | CacheSet jstring
  | Scrape jstring
  | Exit nat

text \<open>
  What puppeteer answers is not decided by the program: every awaited call of the library
  may resolve or reject. \<open>browser_close_result w b n\<close> is the outcome of the call number
  \<open>n\<close> (from 0) of \<open>browser.close()\<close> on \<open>b\<close>; \<open>None\<close> is a call that resolves.
\<close>

record world =
  launch_result :: "error + browser"
  pages_result :: "browser \<Rightarrow> error + page list"
  page_close_result :: "page \<Rightarrow> error option"
  browser_close_result :: "browser \<Rightarrow> nat \<Rightarrow> error option"

datatype 'a settled = Resolved 'a | Rejected error | Pending

section \<open>The browser pool\<close>

text \<open>
  The fields of \<open>BrowserPool\<close>. \<open>maxSize\<close> is a number of browsers
  (\<open>CONFIG.browser.maxConcurrent\<close>, 3 unless the environment says otherwise), \<open>browsers\<close>
  the idle list and \<open>queue\<close> the waiting callers, each the \<open>{resolve, reject}\<close> pair of
  its promise. \<open>activeBrowsers\<close> is only ever incremented, decremented and reset; it is an
  integer, because \<open>cleanup\<close> sets it to 0 while browsers are on loan and a later close
  decrements it.
\<close>

record pool =
  maxSize :: nat
  browsers :: "browser list"
  queue :: "caller list"
  activeBrowsers :: int

definition BrowserPool :: "nat \<Rightarrow> pool" where
  "BrowserPool m = \<lparr>maxSize = m, browsers = [], queue = [], activeBrowsers = 0\<rparr>"

subsection \<open>getBrowser\<close>

text \<open>
  \<open>getBrowser\<close> runs without interruption up to \<open>await puppeteer.launch\<close>:
  \<open>getBrowser_enter\<close> is that part, \<open>getBrowser_launched\<close> the part after the await
  (\<open>resolve\<close>, or the \<open>catch\<close> block). \<open>Array.pop\<close> takes the last element of
  \<open>browsers\<close>, \<open>Array.push\<close> appends.
\<close>

datatype get_step = Popped browser | AwaitLaunch | Queued

definition getBrowser_enter :: "caller \<Rightarrow> pool \<Rightarrow> pool \<times> get_step" where
  "getBrowser_enter c p =
     (if length (browsers p) > 0
      then (p\<lparr>browsers := butlast (browsers p)\<rparr>, Popped (last (browsers p)))
      else if activeBrowsers p < int (maxSize p)
      then (p\<lparr>activeBrowsers := activeBrowsers p + 1\<rparr>, AwaitLaunch)
      else (p\<lparr>queue := queue p @ [c]\<rparr>, Queued))"

definition getBrowser_launched :: "error + browser \<Rightarrow> pool \<Rightarrow> pool \<times> browser settled" where
  "getBrowser_launched r p =
     (case r of
        Inr b \<Rightarrow> (p, Resolved b)
      | Inl e \<Rightarrow> (p\<lparr>activeBrowsers := activeBrowsers p - 1\<rparr>, Rejected e))"

text \<open>One whole call, when nothing else runs during the launch.\<close>

definition getBrowser :: "world \<Rightarrow> caller \<Rightarrow> pool \<Rightarrow> pool \<times> browser settled \<times> effect list" where
  "getBrowser w c p =
     (case getBrowser_enter c p of
        (p', Popped b) \<Rightarrow> (p', Resolved b, [])
      | (p', AwaitLaunch) \<Rightarrow>
          (case getBrowser_launched (launch_result w) p' of (p'', r) \<Rightarrow> (p'', r, [Launch]))
      | (p', Queued) \<Rightarrow> (p', Pending, []))"

subsection \<open>releaseBrowser\<close>

text \<open>
  The loop \<open>for (let i = 1; i < pages.length; i++) await pages[i].close()\<close>: the first
  close that rejects leaves the loop.
\<close>

fun close_pages :: "world \<Rightarrow> browser \<Rightarrow> page list \<Rightarrow> error option \<times> effect list" where
  "close_pages w b [] = (None, [])"
| "close_pages w b (pg # pgs) =
     (case page_close_result w pg of
        Some e \<Rightarrow> (Some e, [ClosePage b pg])
      | None \<Rightarrow> (case close_pages w b pgs of (r, tr) \<Rightarrow> (r, ClosePage b pg # tr)))"

definition release_cleanup :: "world \<Rightarrow> browser \<Rightarrow> error option \<times> effect list" where
  "release_cleanup w b =
     (case pages_result w b of
        Inl e \<Rightarrow> (Some e, [Pages b])
      | Inr pgs \<Rightarrow> (case close_pages w b (drop 1 pgs) of (r, tr) \<Rightarrow> (r, Pages b # tr)))"

text \<open>
  After the cleanup the code decides, without interruption, where the browser goes:
  \<open>Array.shift\<close> takes the head of \<open>queue\<close>.
\<close>

datatype release_step = HandOff caller | Idled | AwaitClose

definition releaseBrowser_settle :: "browser \<Rightarrow> pool \<Rightarrow> pool \<times> release_step" where
  "releaseBrowser_settle b p =
     (if length (queue p) > 0
      then (p\<lparr>queue := tl (queue p)\<rparr>, HandOff (hd (queue p)))
      else if length (browsers p) < maxSize p
      then (p\<lparr>browsers := browsers p @ [b]\<rparr>, Idled)
      else (p, AwaitClose))"

text \<open>
  The \<open>catch\<close> block: \<open>await browser.close()\<close>, then the decrement and the log. The
  close is not guarded: when it rejects, \<open>releaseBrowser\<close> rejects and the two statements
  after it do not run. \<open>n\<close> is the number of calls of \<open>browser.close()\<close> made before.
\<close>

definition releaseBrowser_catch ::
  "world \<Rightarrow> nat \<Rightarrow> error \<Rightarrow> browser \<Rightarrow> pool \<Rightarrow> pool \<times> error option \<times> effect list" where
  "releaseBrowser_catch w n err b p =
     (case browser_close_result w b n of
        Some e' \<Rightarrow> (p, Some e', [CloseBrowser b])
      | None \<Rightarrow> (p\<lparr>activeBrowsers := activeBrowsers p - 1\<rparr>, None, [CloseBrowser b, LogError err]))"

text \<open>
  One whole call. The result is the pool, the error \<open>releaseBrowser\<close> rejects with (if
  any), the waiter whose promise was resolved with the browser (if any) and the effects.
\<close>

definition releaseBrowser ::
  "world \<Rightarrow> browser \<Rightarrow> pool \<Rightarrow> pool \<times> error option \<times> caller option \<times> effect list" where
  "releaseBrowser w b p =
     (case release_cleanup w b of
        (Some err, tr) \<Rightarrow>
          (case releaseBrowser_catch w 0 err b p of (p', r, tr') \<Rightarrow> (p', r, None, tr @ tr'))
      | (None, tr) \<Rightarrow>
          (case releaseBrowser_settle b p of
             (p', HandOff c) \<Rightarrow> (p', None, Some c, tr)
           | (p', Idled) \<Rightarrow> (p', None, None, tr)
           | (p', AwaitClose) \<Rightarrow>
               (case browser_close_result w b 0 of
                  None \<Rightarrow>
                    (p'\<lparr>activeBrowsers := activeBrowsers p' - 1\<rparr>, None, None,
                     tr @ [CloseBrowser b])
                | Some err \<Rightarrow>
                    (case releaseBrowser_catch w 1 err b p' of
                       (p'', r, tr') \<Rightarrow> (p'', r, None, tr @ CloseBrowser b # tr')))))"

subsection \<open>cleanup\<close>

text \<open>
  One whole call of \<open>cleanup\<close>, when nothing else runs while it waits for its closes:
  it closes the browsers of the idle list, each close in its own \<open>try\<close>/\<open>catch\<close>, and
  resets \<open>browsers\<close> and \<open>activeBrowsers\<close>. The section on the shutdown follows the loop
  wait by wait, with the calls of the pool that run in between.
\<close>

definition cleanup_close :: "world \<Rightarrow> browser \<Rightarrow> effect list" where
  "cleanup_close w b =
     (case browser_close_result w b 0 of
        None \<Rightarrow> [CloseBrowser b]
      | Some e \<Rightarrow> [CloseBrowser b, LogError e])"

definition cleanup_reset :: "pool \<Rightarrow> pool" where
  "cleanup_reset p = p\<lparr>browsers := [], activeBrowsers := 0\<rparr>"

definition cleanup :: "world \<Rightarrow> pool \<Rightarrow> pool \<times> effect list" where
  "cleanup w p = (cleanup_reset p, concat (map (cleanup_close w) (browsers p)))"

section \<open>Calls of the pool that overlap\<close>

text \<open>
  Node runs one piece of code at a time and changes to another only at an \<open>await\<close>. The
  pieces of \<open>getBrowser\<close> and \<open>releaseBrowser\<close> that touch the pool are the events of a
  transition system; any list of events is one interleaving. The system remembers, beside
  the pool, what every caller is doing and the number of the next browser that
  \<open>puppeteer.launch\<close> will create. A caller holds its browser while the cleanup of
  \<open>releaseBrowser\<close> runs (the cleanup does not touch the pool); \<open>CallRelease c ok\<close> is the
  moment the cleanup ends, well (\<open>ok\<close>) or with an exception. An event that the caller
  cannot make in its state (a release without a browser) changes nothing.
\<close>

datatype cstate = Out | Launching | Waiting | Holding browser | Closing browser bool

record system =
  the_pool :: pool
  cst :: "caller \<Rightarrow> cstate"
  fresh :: browser

definition start :: "nat \<Rightarrow> system" where
  "start m = \<lparr>the_pool = BrowserPool m, cst = (\<lambda>c. Out), fresh = 0\<rparr>"

datatype event =
    CallGet caller
  | LaunchDone caller bool
  | CallRelease caller bool
  | CloseDone caller bool
  | CallCleanup

definition step_get :: "caller \<Rightarrow> system \<Rightarrow> system" where
  "step_get c s =
     (if cst s c = Out
      then (case getBrowser_enter c (the_pool s) of
              (p', Popped b) \<Rightarrow> s\<lparr>the_pool := p', cst := (cst s)(c := Holding b)\<rparr>
            | (p', AwaitLaunch) \<Rightarrow> s\<lparr>the_pool := p', cst := (cst s)(c := Launching)\<rparr>
            | (p', Queued) \<Rightarrow> s\<lparr>the_pool := p', cst := (cst s)(c := Waiting)\<rparr>)
      else s)"

definition step_launched :: "caller \<Rightarrow> bool \<Rightarrow> system \<Rightarrow> system" where
  "step_launched c ok s =
     (if cst s c = Launching
      then (case getBrowser_launched
                   (if ok then Inr (fresh s) else Inl ''Failed to launch the browser process'')
                   (the_pool s) of
              (p', Resolved b) \<Rightarrow>
                s\<lparr>the_pool := p', cst := (cst s)(c := Holding b), fresh := Suc (fresh s)\<rparr>
            | (p', Rejected e) \<Rightarrow> s\<lparr>the_pool := p', cst := (cst s)(c := Out)\<rparr>
            | (p', Pending) \<Rightarrow> s)
      else s)"

definition step_release :: "caller \<Rightarrow> bool \<Rightarrow> system \<Rightarrow> system" where
  "step_release c ok s =
     (case cst s c of
        Holding b \<Rightarrow>
          (if ok
           then (case releaseBrowser_settle b (the_pool s) of
                   (p', HandOff w) \<Rightarrow>
                     s\<lparr>the_pool := p', cst := (cst s)(c := Out, w := Holding b)\<rparr>
                 | (p', Idled) \<Rightarrow> s\<lparr>the_pool := p', cst := (cst s)(c := Out)\<rparr>
                 | (p', AwaitClose) \<Rightarrow>
                     s\<lparr>the_pool := p', cst := (cst s)(c := Closing b False)\<rparr>)
           else s\<lparr>cst := (cst s)(c := Closing b True)\<rparr>)
      | _ \<Rightarrow> s)"

text \<open>
  \<open>Closing b in_catch\<close> is a caller at \<open>await browser.close()\<close>, in the \<open>try\<close> block or
  in the \<open>catch\<close> block; \<open>CloseDone c ok\<close> is the end of that close.
\<close>

definition step_closed :: "caller \<Rightarrow> bool \<Rightarrow> system \<Rightarrow> system" where
  "step_closed c ok s =
     (case cst s c of
        Closing b in_catch \<Rightarrow>
          (if ok
           then s\<lparr>the_pool := (the_pool s)\<lparr>activeBrowsers := activeBrowsers (the_pool s) - 1\<rparr>,
                   cst := (cst s)(c := Out)\<rparr>
           else if in_catch then s\<lparr>cst := (cst s)(c := Out)\<rparr>
           else s\<lparr>cst := (cst s)(c := Closing b True)\<rparr>)
      | _ \<Rightarrow> s)"

text \<open>
  \<open>CallCleanup\<close> is one whole call of \<open>cleanup\<close>: what its closes answer does not change
  the pool it leaves. The loop of \<open>cleanup\<close> only reads the pool, so for the pool and the
  callers a call is the moment of its two assignments.
\<close>

definition step_cleanup :: "system \<Rightarrow> system" where
  "step_cleanup s = s\<lparr>the_pool := cleanup_reset (the_pool s)\<rparr>"

fun step :: "event \<Rightarrow> system \<Rightarrow> system" where
  "step (CallGet c) s = step_get c s"
| "step (LaunchDone c ok) s = step_launched c ok s"
| "step (CallRelease c ok) s = step_release c ok s"
| "step (CloseDone c ok) s = step_closed c ok s"
| "step CallCleanup s = step_cleanup s"

fun run :: "event list \<Rightarrow> system \<Rightarrow> system" where
  "run [] s = s"
| "run (e # es) s = run es (step e s)"

definition pool_inv :: "system \<Rightarrow> bool" where
  "pool_inv s \<longleftrightarrow>
     activeBrowsers (the_pool s) \<le> int (maxSize (the_pool s)) \<and>
     distinct (browsers (the_pool s)) \<and>
     (\<forall>b \<in> set (browsers (the_pool s)). b < fresh s) \<and>
     (\<forall>c b. cst s c = Holding b \<longrightarrow> b < fresh s \<and> b \<notin> set (browsers (the_pool s))) \<and>
     (\<forall>c c' b. cst s c = Holding b \<and> cst s c' = Holding b \<longrightarrow> c = c')"

section \<open>scrapeDividendData\<close>

subsection \<open>The extraction that page.evaluate runs\<close>

text \<open>
  A \<open>td\<close> element is its two texts, a table row the list of its \<open>td\<close> elements, and the
  document what \<open>document.querySelector\<close> answers for a selector. \<open>scrapedAt\<close> is the
  instant that \<open>new Date().toISOString()\<close> writes, in milliseconds.
\<close>

record cell =
  innerText :: jstring
  textContent :: jstring

type_synonym row = "cell list"
type_synonym document = "string \<Rightarrow> row option"

record data =
  exDate :: jstring
  payDate :: jstring
  dividend :: jstring
  yield :: jstring
  scrapedAt :: int

text \<open>
  \<open>String.prototype.trim\<close> removes the white space and the line terminators of
  ECMAScript from both ends: tab, line feed, vertical tab, form feed, carriage return,
  space, no-break space, the other space separators of Unicode (U+1680, U+2000 to U+200A,
  U+202F, U+205F, U+3000), the line and paragraph separators and the byte order mark.
\<close>

definition whitespace :: "nat \<Rightarrow> bool" where
  "whitespace c \<longleftrightarrow>
     c \<in> set [0x09, 0x0A, 0x0B, 0x0C, 0x0D, 0x20, 0xA0, 0x1680, 0x2000, 0x2001, 0x2002,
       0x2003, 0x2004, 0x2005, 0x2006, 0x2007, 0x2008, 0x2009, 0x200A, 0x2028, 0x2029,
       0x202F, 0x205F, 0x3000, 0xFEFF]"

definition trim :: "jstring \<Rightarrow> jstring" where
  "trim s = rev (dropWhile whitespace (rev (dropWhile whitespace s)))"

text \<open>\<open>element?.innerText?.trim() || element?.textContent?.trim() || ''\<close>: an empty string is falsy.\<close>

definition extractText :: "cell \<Rightarrow> jstring" where
  "extractText element =
     (if trim (innerText element) \<noteq> [] then trim (innerText element)
      else if trim (textContent element) \<noteq> [] then trim (textContent element)
      else [])"

definition selectors :: "string list" where
  "selectors =
     [''div[data-testid='stock-dividends-table'] table tbody tr'',
      ''table tbody tr'',
      ''.dividend-table tbody tr'']"

fun first_row :: "document \<Rightarrow> string list \<Rightarrow> row option" where
  "first_row doc [] = None"
| "first_row doc (selector # rest) =
     (case doc selector of Some r \<Rightarrow> Some r | None \<Rightarrow> first_row doc rest)"

definition extraction :: "document \<Rightarrow> int \<Rightarrow> data option" where
  "extraction doc now =
     (case first_row doc selectors of
        None \<Rightarrow> None
      | Some tds \<Rightarrow>
          if length tds < 4 then None
          else Some \<lparr>exDate = extractText (tds ! 0), payDate = extractText (tds ! 1),
                      dividend = extractText (tds ! 2), yield = extractText (tds ! 3),
                      scrapedAt = now\<rparr>)"

subsection \<open>Navigation with retries\<close>

definition maxRetries :: nat where
  "maxRetries = 3"

text \<open>
  The \<open>while (retryCount < maxRetries)\<close> loop. Every failed attempt adds one to
  \<open>retryCount\<close>, so the attempt made at \<open>retryCount\<close> is the call number \<open>retryCount\<close>
  (from 0) of \<open>page.goto\<close>, whose outcome is \<open>g retryCount\<close>. The result is the error
  the loop throws, if any.
\<close>

function goto_loop :: "(nat \<Rightarrow> error option) \<Rightarrow> jstring \<Rightarrow> nat \<Rightarrow> error option \<times> effect list" where
  "goto_loop g url retryCount =
     (if retryCount < maxRetries
      then (case g retryCount of
              None \<Rightarrow> (None, [Goto url])
            | Some e \<Rightarrow>
                if retryCount + 1 = maxRetries then (Some e, [Goto url])
                else (case goto_loop g url (retryCount + 1) of
                        (r, tr) \<Rightarrow> (r, Goto url # Sleep (1000 * (retryCount + 1)) # tr)))
      else (None, []))"
  by pat_completeness auto
termination
  by (relation "measure (\<lambda>(g, url, retryCount). maxRetries - retryCount)") auto

declare goto_loop.simps [simp del]

subsection \<open>The function\<close>

text \<open>
  What one call of \<open>scrapeDividendData\<close> meets: the answer of
  \<open>await browserPool.getBrowser()\<close> (\<open>Pending\<close>: the promise of a queued caller that is
  never resolved), of each awaited call on the page, and of
  \<open>await browserPool.releaseBrowser(browser)\<close> in the \<open>finally\<close> block, which rejects when
  the close in the \<open>catch\<close> block of \<open>releaseBrowser\<close> rejects. \<open>settled_at\<close> is the
  time at which the call returns.
\<close>

record session =
  acquire_result :: "browser settled"
  newPage_result :: "error option"
  setUserAgent_result :: "error option"
  setViewport_result :: "error option"
  goto_result :: "nat \<Rightarrow> error option"
  table_result :: "error option"
  evaluate_result :: "error option"
  page_document :: document
  evaluated_at :: int
  release_result :: "error option"
  settled_at :: int

definition url_of :: "jstring \<Rightarrow> jstring" where
  "url_of ticker = js ''https://stockevents.app/en/stock/'' @ ticker @ js ''/dividends''"

text \<open>A statement that may throw, followed by the rest of the block.\<close>

definition and_then ::
  "error option \<times> effect list \<Rightarrow> (error + 'a) \<times> effect list \<Rightarrow> (error + 'a) \<times> effect list" where
  "and_then first rest =
     (case first of
        (Some e, tr) \<Rightarrow> (Inl e, tr)
      | (None, tr) \<Rightarrow> (case rest of (r, tr') \<Rightarrow> (r, tr @ tr')))"

text \<open>
  The \<open>try\<close> block after the browser is acquired. \<open>page.setDefaultTimeout\<close> is a
  setter without an \<open>await\<close> and is left out.
\<close>

definition scrape_page :: "session \<Rightarrow> browser \<Rightarrow> jstring \<Rightarrow> (error + data option) \<times> effect list" where
  "scrape_page ss b ticker =
     and_then (newPage_result ss, [NewPage b])
    (and_then (setUserAgent_result ss, [SetUserAgent])
    (and_then (setViewport_result ss, [SetViewport])
    (and_then (goto_loop (goto_result ss) (url_of ticker) 0)
    (and_then (table_result ss, [WaitForTable])
    (and_then (evaluate_result ss, [Evaluate])
       (Inr (extraction (page_document ss) (evaluated_at ss)), []))))))"

text \<open>
  The whole function with its \<open>finally\<close> block: \<open>browser\<close> is still \<open>null\<close> when
  \<open>getBrowser\<close> rejects; an exception of the \<open>finally\<close> block replaces the outcome of the
  \<open>try\<close> block. The result is \<open>None\<close> when the call never returns.
\<close>

definition scrapeDividendData ::
  "session \<Rightarrow> jstring \<Rightarrow> (error + data option) option \<times> effect list" where
  "scrapeDividendData ss ticker =
     (case acquire_result ss of
        Pending \<Rightarrow> (None, [AcquireBrowser])
      | Rejected e \<Rightarrow> (Some (Inl e), [AcquireBrowser])
      | Resolved b \<Rightarrow>
          (case scrape_page ss b ticker of
             (r, tr) \<Rightarrow>
               (case release_result ss of
                  None \<Rightarrow> (Some r, AcquireBrowser # tr @ [ReleaseBrowser b])
                | Some e \<Rightarrow> (Some (Inl e), AcquireBrowser # tr @ [ReleaseBrowser b]))))"

section \<open>The cache\<close>

record response =
  ticker :: jstring
  payload :: data
  cached :: "bool option"
  cacheAge :: "int option"

record entry =
  stored :: response
  expiresAt :: int

type_synonym cache = "jstring \<Rightarrow> entry option"

text \<open>
  Modelled from the spec: the store is \<open>new NodeCache({stdTTL, checkperiod})\<close> of the
  package node-cache, whose code is not among the sources. \<open>get\<close> is absent if there is no
  entry or the entry's \<open>expiresAt\<close> has passed.
\<close>

definition cache_get :: "cache \<Rightarrow> int \<Rightarrow> jstring \<Rightarrow> response option" where
  "cache_get c now key =
     (case c key of
        None \<Rightarrow> None
      | Some e \<Rightarrow> if expiresAt e \<le> now then None else Some (stored e))"

text \<open>
  Modelled from the spec: \<open>put\<close> inserts or overwrites the entry with
  \<open>expiresAt = now + ttl\<close>; \<open>ttl\<close> is in seconds, the clock in milliseconds.
\<close>

definition cache_set :: "int \<Rightarrow> cache \<Rightarrow> int \<Rightarrow> jstring \<Rightarrow> response \<Rightarrow> cache" where
  "cache_set ttl c now key v = c(key \<mapsto> \<lparr>stored = v, expiresAt = now + ttl * 1000\<rparr>)"

text \<open>
  \<open>CONFIG.cache.ttl = parseInt(process.env.CACHE_TTL) || 60\<close>: \<open>parseInt\<close> answers an
  integer or \<open>NaN\<close> (here \<open>None\<close>); \<open>NaN\<close> and 0 are falsy.
\<close>

definition config_ttl :: "int option \<Rightarrow> int" where
  "config_ttl parsed = (case parsed of None \<Rightarrow> 60 | Some n \<Rightarrow> if n = 0 then 60 else n)"

section \<open>The routes\<close>

datatype body = Found response | Failure string

type_synonym reply = "nat \<times> body"

text \<open>The class \<open>[A-Za-z0-9.-]\<close>: the letters, the digits, U+002E and U+002D.\<close>

definition ticker_char :: "nat \<Rightarrow> bool" where
  "ticker_char c \<longleftrightarrow>
     (65 \<le> c \<and> c \<le> 90) \<or> (97 \<le> c \<and> c \<le> 122) \<or> (48 \<le> c \<and> c \<le> 57) \<or> c = 46 \<or> c = 45"

text \<open>
  The test \<open>/^[A-Za-z0-9.-]{1,10}$/\<close>. A text that passes has ASCII characters only, so
  its length in code points is its \<open>length\<close> in JavaScript.
\<close>

definition matches_ticker :: "jstring \<Rightarrow> bool" where
  "matches_ticker t \<longleftrightarrow> 1 \<le> length t \<and> length t \<le> 10 \<and> list_all ticker_char t"

text \<open>\<open>validateTicker\<close> answers 400, or calls \<open>next()\<close> (\<open>None\<close>).\<close>

definition validateTicker :: "jstring \<Rightarrow> reply option" where
  "validateTicker t =
     (if t = [] then Some (400, Failure ''Ticker symbol is required'')
      else if \<not> matches_ticker t then Some (400, Failure ''Invalid ticker symbol format'')
      else None)"

text \<open>
  \<open>String.prototype.toUpperCase\<close> replaces every code point by its upper-case mapping of
  the Unicode character database, which can be several code points (U+00DF becomes
  \<open>SS\<close>). In ASCII the mapping takes \<open>a\<close> to \<open>z\<close> to \<open>A\<close> to \<open>Z\<close> and leaves the rest;
  beyond ASCII it is the table of the JavaScript engine, which is not part of the program:
  \<open>uc\<close> stands for it, and nothing is assumed about it.
\<close>

definition upper_point :: "(nat \<Rightarrow> nat list) \<Rightarrow> nat \<Rightarrow> nat list" where
  "upper_point uc c =
     (if 97 \<le> c \<and> c \<le> 122 then [c - 32] else if c < 128 then [c] else uc c)"

definition toUpperCase :: "(nat \<Rightarrow> nat list) \<Rightarrow> jstring \<Rightarrow> jstring" where
  "toUpperCase uc t = concat (map (upper_point uc) t)"

fun includes_str :: "string \<Rightarrow> string \<Rightarrow> bool" where
  "includes_str [] sub = (sub = [])"
| "includes_str (c # cs) sub = (take (length sub) (c # cs) = sub \<or> includes_str cs sub)"

text \<open>The \<open>catch\<close> block of the route: the status follows the message of the error.\<close>

definition error_reply :: "error \<Rightarrow> reply" where
  "error_reply message =
     (if includes_str message ''timeout'' then (408, Failure ''Request timeout'')
      else if includes_str message ''Navigation failed'' then (503, Failure ''Service unavailable'')
      else (500, Failure ''Scraping failed''))"

subsection \<open>The middleware in front of the routes\<close>

text \<open>
  \<open>app.use\<close> puts helmet, compression, cors, \<open>express.json\<close> and the rate limiter, in this
  order, in front of the routes. The first three answer no \<open>GET\<close> or \<open>POST\<close> request
  themselves. \<open>express.json\<close> hands a body that it cannot parse to the error handler at the
  end of the file, which answers 500; the limiter answers a client that is over its limit
  with the configured message and the status 429 of express-rate-limit. Whether the body
  parses and whether the client is over the limit is not decided by the program:
  \<open>body_ok\<close> and \<open>over_limit\<close> say it. \<open>None\<close> is a request that reaches the route.
\<close>

definition middleware :: "bool \<Rightarrow> bool \<Rightarrow> (nat \<times> string) option" where
  "middleware body_ok over_limit =
     (if \<not> body_ok then Some (500, ''Something went wrong!'')
      else if over_limit then Some (429, ''Too many requests, please try again later.'')
      else None)"

subsection \<open>GET /dividend/:ticker\<close>

text \<open>
  The route with its middleware \<open>validateTicker\<close>. \<open>now\<close> is the time of the request;
  the reply is \<open>None\<close> when the scrape never returns.
\<close>

definition get_dividend ::
  "(nat \<Rightarrow> nat list) \<Rightarrow> int \<Rightarrow> cache \<Rightarrow> int \<Rightarrow> session \<Rightarrow> jstring \<Rightarrow>
   cache \<times> reply option \<times> effect list" where
  "get_dividend uc ttl c now ss param =
     (case validateTicker param of
        Some r \<Rightarrow> (c, Some r, [])
      | None \<Rightarrow>
          (let tk = toUpperCase uc param; cacheKey = js ''dividend:'' @ tk
           in case cache_get c now cacheKey of
                Some cachedData \<Rightarrow>
                  (c,
                   Some (200, Found (cachedData\<lparr>cached := Some True,
                      cacheAge := Some ((now - scrapedAt (payload cachedData)) div 1000)\<rparr>)),
                   [CacheGet cacheKey])
              | None \<Rightarrow>
                  (case scrapeDividendData ss tk of
                     (None, tr) \<Rightarrow> (c, None, CacheGet cacheKey # Scrape tk # tr)
                   | (Some (Inl e), tr) \<Rightarrow>
                       (c, Some (error_reply e), CacheGet cacheKey # Scrape tk # tr)
                   | (Some (Inr None), tr) \<Rightarrow>
                       (c, Some (404, Failure ''No dividend data found''),
                        CacheGet cacheKey # Scrape tk # tr)
                   | (Some (Inr (Some d)), tr) \<Rightarrow>
                       if exDate d \<noteq> []
                       then (if exDate d = [] \<or> exDate d = js ''N/A'' \<or> exDate d = []
                             then (c, Some (error_reply ''No valid dividend data found''),
                                   CacheGet cacheKey # Scrape tk # tr)
                             else (let resp = \<lparr>ticker = tk, payload = d, cached = Some False,
                                                cacheAge = None\<rparr>
                                   in (cache_set ttl c (settled_at ss) cacheKey resp,
                                       Some (200, Found resp),
                                       CacheGet cacheKey # Scrape tk # tr @ [CacheSet cacheKey])))
                       else (c, Some (404, Failure ''No dividend data found''),
                             CacheGet cacheKey # Scrape tk # tr))))"

text \<open>The request on its way through the middleware to the route.\<close>

definition serve_dividend ::
  "bool \<Rightarrow> bool \<Rightarrow> (nat \<Rightarrow> nat list) \<Rightarrow> int \<Rightarrow> cache \<Rightarrow> int \<Rightarrow> session \<Rightarrow> jstring \<Rightarrow>
   cache \<times> reply option \<times> effect list" where
  "serve_dividend body_ok over_limit uc ttl c now ss param =
     (case middleware body_ok over_limit of
        Some (st, msg) \<Rightarrow> (c, Some (st, Failure msg), [])
      | None \<Rightarrow> get_dividend uc ttl c now ss param)"

subsection \<open>POST /dividends/batch\<close>

text \<open>
  One callback of \<open>tickers.map\<close>: the key of \<open>results\<close> it writes, the value, the cache
  entry it sets (if any) and its effects; \<open>None\<close> when its scrape never returns. Every
  callback runs up to its first \<open>await\<close> before any scrape has ended, so all of them read
  the cache \<open>c\<close> of the time \<open>now\<close> of the request.
\<close>

definition batch_one ::
  "(nat \<Rightarrow> nat list) \<Rightarrow> cache \<Rightarrow> int \<Rightarrow> jstring \<times> session \<Rightarrow>
   (jstring \<times> body \<times> (jstring \<times> response \<times> int) option \<times> effect list) option" where
  "batch_one uc c now req =
     (case req of
        (t, ss) \<Rightarrow>
          (let upperTicker = toUpperCase uc t; cacheKey = js ''dividend:'' @ upperTicker
           in case cache_get c now cacheKey of
                Some d \<Rightarrow> Some (upperTicker, Found d, None, [CacheGet cacheKey])
              | None \<Rightarrow>
                  (case scrapeDividendData ss upperTicker of
                     (None, tr) \<Rightarrow> None
                   | (Some (Inl e), tr) \<Rightarrow>
                       Some (upperTicker, Failure e, None,
                             CacheGet cacheKey # Scrape upperTicker # tr)
                   | (Some (Inr None), tr) \<Rightarrow>
                       Some (upperTicker, Failure ''No data found'', None,
                             CacheGet cacheKey # Scrape upperTicker # tr)
                   | (Some (Inr (Some d)), tr) \<Rightarrow>
                       (let resp = \<lparr>ticker = upperTicker, payload = d, cached = None,
                                      cacheAge = None\<rparr>
                        in Some (upperTicker, Found resp, Some (cacheKey, resp, settled_at ss),
                                 CacheGet cacheKey # Scrape upperTicker # tr @ [CacheSet cacheKey])))))"

text \<open>
  The callbacks write \<open>results\<close> and the cache as they end. \<open>batch_results\<close> and
  \<open>batch_cache\<close> take the outcomes of the callbacks in that order.
\<close>

fun batch_results ::
  "(jstring \<times> body \<times> (jstring \<times> response \<times> int) option \<times> effect list) list \<Rightarrow>
   (jstring \<Rightarrow> body option) \<Rightarrow> (jstring \<Rightarrow> body option)" where
  "batch_results [] results = results"
| "batch_results ((k, v, w, tr) # rest) results = batch_results rest (results(k \<mapsto> v))"

fun batch_cache ::
  "int \<Rightarrow> (jstring \<times> body \<times> (jstring \<times> response \<times> int) option \<times> effect list) list \<Rightarrow>
   cache \<Rightarrow> cache" where
  "batch_cache ttl [] c = c"
| "batch_cache ttl ((k, v, None, tr) # rest) c = batch_cache ttl rest c"
| "batch_cache ttl ((k, v, Some (key, resp, at), tr) # rest) c =
     batch_cache ttl rest (cache_set ttl c at key resp)"

datatype batch_reply = Refused nat string | Results nat "jstring \<Rightarrow> body option"

text \<open>
  The route. \<open>tickers\<close> is \<open>None\<close> when the body has no array \<open>tickers\<close>; the array
  lists every ticker with what its scrape would meet, in the order in which the callbacks
  end. The reply is \<open>None\<close> when a scrape never returns (\<open>Promise.allSettled\<close> waits for
  all of them).
\<close>

definition post_batch ::
  "(nat \<Rightarrow> nat list) \<Rightarrow> int \<Rightarrow> cache \<Rightarrow> int \<Rightarrow> (jstring \<times> session) list option \<Rightarrow>
   cache \<times> batch_reply option \<times> effect list" where
  "post_batch uc ttl c now tickers =
     (case tickers of
        None \<Rightarrow> (c, Some (Refused 400 ''Tickers array is required''), [])
      | Some reqs \<Rightarrow>
          if length reqs = 0 then (c, Some (Refused 400 ''Tickers array is required''), [])
          else if length reqs > 10
          then (c, Some (Refused 400 ''Maximum 10 tickers allowed per batch request''), [])
          else if None \<in> set (map (batch_one uc c now) reqs) then (c, None, [])
          else (let outs = map (\<lambda>req. the (batch_one uc c now req)) reqs
                in (batch_cache ttl outs c,
                    Some (Results 200 (batch_results outs Map.empty)),
                    concat (map (\<lambda>(k, v, w, tr). tr) outs))))"

text \<open>The request on its way through the middleware to the route.\<close>

definition serve_batch ::
  "bool \<Rightarrow> bool \<Rightarrow> (nat \<Rightarrow> nat list) \<Rightarrow> int \<Rightarrow> cache \<Rightarrow> int \<Rightarrow>
   (jstring \<times> session) list option \<Rightarrow> cache \<times> batch_reply option \<times> effect list" where
  "serve_batch body_ok over_limit uc ttl c now tickers =
     (case middleware body_ok over_limit of
        Some (st, msg) \<Rightarrow> (c, Some (Refused st msg), [])
      | None \<Rightarrow> post_batch uc ttl c now tickers)"

section \<open>Shutdown\<close>

text \<open>
  The handler of \<open>SIGINT\<close> and of \<open>SIGTERM\<close> runs \<open>await browserPool.cleanup()\<close> and then
  \<open>process.exit(0)\<close>. \<open>cleanup\<close> waits for every \<open>browser.close()\<close> inside its loop, and
  other code runs during these waits. The loop \<open>for (const browser of this.browsers)\<close>
  reads the array at each turn: it takes the element at the next position as long as that
  position is below the length the array has then. \<open>position\<close> is the position of the
  browser whose close the loop is waiting for. At its end \<open>cleanup\<close> puts a new empty
  array in \<open>this.browsers\<close>; a loop of another call of \<open>cleanup\<close> that is still running
  keeps the old array, which nothing changes any more: \<open>orphan\<close> holds it. \<open>for_exit\<close>
  marks the call made by a signal handler.
\<close>

record walk =
  position :: nat
  orphan :: "browser list option"
  for_exit :: bool

text \<open>
  The process: the pool and its callers, the loops of \<open>cleanup\<close> that are running, what
  \<open>cleanup\<close> and the handlers have done so far (the closes, the logged errors, the exit),
  the number of handlers whose \<open>cleanup\<close> has returned, and whether the process has exited.
\<close>

record process =
  sys :: system
  walks :: "walk list"
  trace :: "effect list"
  returned :: nat
  halted :: bool

definition boot :: "nat \<Rightarrow> process" where
  "boot m = \<lparr>sys = start m, walks = [], trace = [], returned = 0, halted = False\<rparr>"

text \<open>
  What happens in the process: an event of the pool, where \<open>CallCleanup\<close> is now the
  call of \<open>cleanup\<close> and no longer the whole of it; a signal; the end of the close that
  the loop number \<open>n\<close> is waiting for, resolved or rejected; \<open>process.exit(0)\<close>.
\<close>

datatype action = PoolEvent event | Signal | CloseEnds nat "error option" | ProcessExit

definition walked :: "pool \<Rightarrow> walk \<Rightarrow> browser list" where
  "walked p w = (case orphan w of None \<Rightarrow> browsers p | Some xs \<Rightarrow> xs)"

definition orphaned :: "browser list \<Rightarrow> walk \<Rightarrow> walk" where
  "orphaned xs w = (case orphan w of None \<Rightarrow> w\<lparr>orphan := Some xs\<rparr> | Some ys \<Rightarrow> w)"

text \<open>
  The two assignments after the loop; \<open>others\<close> are the loops that go on.
\<close>

definition cleanup_ends :: "bool \<Rightarrow> walk list \<Rightarrow> process \<Rightarrow> process" where
  "cleanup_ends flag others ps =
     ps\<lparr>sys := step_cleanup (sys ps),
        walks := map (orphaned (browsers (the_pool (sys ps)))) others,
        returned := returned ps + (if flag then 1 else 0)\<rparr>"

text \<open>The call of \<open>cleanup\<close> up to its first wait, or to its end when the idle list is empty.\<close>

definition cleanup_begins :: "bool \<Rightarrow> process \<Rightarrow> process" where
  "cleanup_begins flag ps =
     (case browsers (the_pool (sys ps)) of
        [] \<Rightarrow> cleanup_ends flag (walks ps) ps
      | b # bs \<Rightarrow>
          ps\<lparr>walks := walks ps @ [\<lparr>position = 0, orphan = None, for_exit = flag\<rparr>],
             trace := trace ps @ [CloseBrowser b]\<rparr>)"

text \<open>
  The close that loop \<open>n\<close> waits for has ended: a rejection is caught and logged, and the
  loop goes to the next position or ends.
\<close>

definition close_ends :: "nat \<Rightarrow> error option \<Rightarrow> process \<Rightarrow> process" where
  "close_ends n r ps =
     (if n < length (walks ps)
      then (let w = walks ps ! n;
                logged = ps\<lparr>trace := trace ps @ (case r of None \<Rightarrow> [] | Some e \<Rightarrow> [LogError e])\<rparr>;
                arr = walked (the_pool (sys ps)) w;
                i = position w + 1
            in if i < length arr
               then logged\<lparr>walks := (walks ps)[n := w\<lparr>position := i\<rparr>],
                           trace := trace logged @ [CloseBrowser (arr ! i)]\<rparr>
               else cleanup_ends (for_exit w) (take n (walks ps) @ drop (Suc n) (walks ps)) logged)
      else ps)"

text \<open>\<open>process.exit(0)\<close> runs in a handler whose \<open>await browserPool.cleanup()\<close> has returned.\<close>

definition process_exit :: "process \<Rightarrow> process" where
  "process_exit ps =
     (if 0 < returned ps then ps\<lparr>trace := trace ps @ [Exit 0], halted := True\<rparr> else ps)"

fun running :: "action \<Rightarrow> process \<Rightarrow> process" where
  "running (PoolEvent CallCleanup) ps = cleanup_begins False ps"
| "running (PoolEvent e) ps = ps\<lparr>sys := step e (sys ps)\<rparr>"
| "running Signal ps = cleanup_begins True ps"
| "running (CloseEnds n r) ps = close_ends n r ps"
| "running ProcessExit ps = process_exit ps"

text \<open>Nothing happens in a process that has exited.\<close>

definition act :: "action \<Rightarrow> process \<Rightarrow> process" where
  "act a ps = (if halted ps then ps else running a ps)"

fun perform :: "action list \<Rightarrow> process \<Rightarrow> process" where
  "perform [] ps = ps"
| "perform (a # as) ps = perform as (act a ps)"

text \<open>
  The invariant of the process: that of the pool, and the browsers of an orphaned array
  are known browsers that are neither idle nor held.
\<close>

definition process_inv :: "process \<Rightarrow> bool" where
  "process_inv ps \<longleftrightarrow>
     pool_inv (sys ps) \<and>
     (\<forall>w \<in> set (walks ps). \<forall>xs. orphan w = Some xs \<longrightarrow>
        (\<forall>b \<in> set xs. b < fresh (sys ps) \<and> b \<notin> set (browsers (the_pool (sys ps))) \<and>
           (\<forall>c. cst (sys ps) c \<noteq> Holding b)))"

section \<open>Concrete inputs\<close>

text \<open>A puppeteer whose calls all resolve, and one whose calls all reject.\<close>

definition world_ok :: world where
  "world_ok = \<lparr>launch_result = Inr 7, pages_result = (\<lambda>b. Inr [0, 1, 2]),
     page_close_result = (\<lambda>pg. None), browser_close_result = (\<lambda>b n. None)\<rparr>"

definition world_down :: world where
  "world_down = \<lparr>launch_result = Inl ''Failed to launch the browser process'',
     pages_result = (\<lambda>b. Inl ''Protocol error: Target closed''),
     page_close_result = (\<lambda>pg. Some ''Protocol error: Target closed''),
     browser_close_result = (\<lambda>b n. Some ''Protocol error: Connection closed'')\<rparr>"

definition pool_idle :: pool where
  "pool_idle = \<lparr>maxSize = 3, browsers = [4, 5], queue = [], activeBrowsers = 2\<rparr>"

definition pool_full :: pool where
  "pool_full = \<lparr>maxSize = 1, browsers = [], queue = [8], activeBrowsers = 1\<rparr>"

definition pool_one :: pool where
  "pool_one = \<lparr>maxSize = 3, browsers = [], queue = [], activeBrowsers = 1\<rparr>"

text \<open>The browsers on which an effect log calls \<open>browser.close()\<close>, in order.\<close>

fun closes :: "effect list \<Rightarrow> browser list" where
  "closes [] = []"
| "closes (CloseBrowser b # es) = b # closes es"
| "closes (e # es) = closes es"

text \<open>
  The browsers an effect log gives back to the pool, in order, and the number of calls
  of \<open>page.goto\<close> in a log.
\<close>

fun releases :: "effect list \<Rightarrow> browser list" where
  "releases [] = []"
| "releases (ReleaseBrowser b # es) = b # releases es"
| "releases (e # es) = releases es"

fun navigations :: "effect list \<Rightarrow> nat" where
  "navigations [] = 0"
| "navigations (Goto url # es) = Suc (navigations es)"
| "navigations (e # es) = navigations es"

text \<open>
  A page whose second selector finds a row of four cells, and a call of
  \<open>scrapeDividendData\<close> in which every step succeeds on browser 2.
\<close>

definition td :: "jstring \<Rightarrow> cell" where
  "td s = \<lparr>innerText = s, textContent = s\<rparr>"

definition doc_ko :: document where
  "doc_ko = (\<lambda>selector.
     if selector = ''table tbody tr''
     then Some [td (js ''2024-01-15''), td (0xA0 # js '' 2024-02-01 ''), td (js ''$0.48''),
                td (js ''3.1%'')]
     else None)"

definition session_ok :: session where
  "session_ok = \<lparr>acquire_result = Resolved 2, newPage_result = None,
     setUserAgent_result = None, setViewport_result = None, goto_result = (\<lambda>n. None),
     table_result = None, evaluate_result = None, page_document = doc_ko,
     evaluated_at = 5000, release_result = None, settled_at = 6000\<rparr>"

definition data_ko :: data where
  "data_ko = \<lparr>exDate = js ''2024-01-15'', payDate = js ''2024-02-01'',
     dividend = js ''$0.48'', yield = js ''3.1%'', scrapedAt = 5000\<rparr>"

text \<open>
  A site that answers at the third attempt, and one that never answers; a call whose
  browser never comes.
\<close>

definition session_flaky :: session where
  "session_flaky = session_ok\<lparr>goto_result :=
     (\<lambda>n. if n = 0 then Some ''net::ERR_CONNECTION_RESET''
          else if n = 1 then Some ''net::ERR_TIMED_OUT'' else None)\<rparr>"

definition session_unreachable :: session where
  "session_unreachable = session_ok\<lparr>goto_result :=
     (\<lambda>n. if n = 0 then Some ''net::ERR_CONNECTION_RESET''
          else if n = 1 then Some ''net::ERR_TIMED_OUT''
          else Some ''Navigation timeout of 30000 ms exceeded'')\<rparr>"

definition session_no_browser :: session where
  "session_no_browser = session_ok\<lparr>acquire_result := Rejected ''Failed to launch the browser process''\<rparr>"

text \<open>A page whose row has a date in the first cell and nothing in the other three.\<close>

definition doc_partial :: document where
  "doc_partial = (\<lambda>selector.
     if selector = ''table tbody tr''
     then Some [td (js ''2024-01-15''), td [], td [0xA0, 0x20], td []]
     else None)"

definition session_partial :: session where
  "session_partial = session_ok\<lparr>page_document := doc_partial\<rparr>"

definition response_ko :: response where
  "response_ko = \<lparr>ticker = js ''KO'', payload = data_ko, cached = Some False, cacheAge = None\<rparr>"

text \<open>The status of a reply of the batch route, and the entry of \<open>results\<close> under a key.\<close>

fun batch_status :: "batch_reply option \<Rightarrow> nat option" where
  "batch_status None = None"
| "batch_status (Some (Refused st msg)) = Some st"
| "batch_status (Some (Results st m)) = Some st"

fun batch_entry :: "batch_reply option \<Rightarrow> jstring \<Rightarrow> body option" where
  "batch_entry (Some (Results st m)) k = m k"
| "batch_entry r k = None"

text \<open>A batch of three tickers: the second is malformed, and its site never answers.\<close>

definition batch3 :: "(jstring \<times> session) list" where
  "batch3 = [(js ''aapl'', session_ok), (js ''INVALID$'', session_unreachable),
     (js ''msft'', session_ok)]"

text \<open>
  The entry of the upper-case table at U+00DF, which becomes \<open>SS\<close>; the examples below
  use no other code point beyond ASCII.
\<close>

definition uc_excerpt :: "nat \<Rightarrow> nat list" where
  "uc_excerpt c = (if c = 0xDF then [0x53, 0x53] else [c])"

text \<open>
  A call whose \<open>getBrowser\<close> is never answered; a call on browser \<open>b\<close> in which every
  step succeeds; a call whose site never answers and whose \<open>releaseBrowser\<close> rejects; a
  call whose navigation succeeds and whose \<open>page.evaluate\<close> rejects, and one whose
  navigation fails three times with that same message.
\<close>

definition session_queued :: session where
  "session_queued = session_ok\<lparr>acquire_result := Pending\<rparr>"

definition session_on :: "browser \<Rightarrow> session" where
  "session_on b = session_ok\<lparr>acquire_result := Resolved b\<rparr>"

definition session_close_fails :: session where
  "session_close_fails =
     session_unreachable\<lparr>release_result := Some ''Protocol error: Connection closed''\<rparr>"

definition session_evaluate_fails :: session where
  "session_evaluate_fails = session_ok\<lparr>evaluate_result := Some ''Protocol error: Target closed''\<rparr>"

definition session_target_closed :: session where
  "session_target_closed = session_ok\<lparr>goto_result := (\<lambda>n. Some ''Protocol error: Target closed'')\<rparr>"

text \<open>A page whose row has four empty cells.\<close>

definition doc_empty :: document where
  "doc_empty = (\<lambda>selector. if selector = ''table tbody tr'' then Some [td [], td [], td [], td []] else None)"

definition session_empty :: session where
  "session_empty = session_ok\<lparr>page_document := doc_empty\<rparr>"

text \<open>
  Two tickers with one upper-case form, the second with a site that never answers. Four
  tickers on a pool of three browsers: with launches that fail, and with launches that
  succeed and a first browser that is handed on to the fourth ticker.
\<close>

definition batch_sharp :: "(jstring \<times> session) list" where
  "batch_sharp = [(js ''ss'', session_ok), ([0xDF], session_unreachable)]"

definition batch4_failed :: "(jstring \<times> session) list" where
  "batch4_failed = [(js ''aapl'', session_no_browser), (js ''msft'', session_no_browser),
     (js ''ko'', session_no_browser), (js ''ibm'', session_queued)]"

definition batch4_launched :: "(jstring \<times> session) list" where
  "batch4_launched = [(js ''aapl'', session_on 0), (js ''msft'', session_on 1),
     (js ''ko'', session_on 2), (js ''ibm'', session_on 0)]"

text \<open>
  A puppeteer whose close of browser 1 rejects. A process with a pool of three browsers
  in which two callers have each launched a browser and given it back, and one in which
  the second browser is idle and the first is still on loan.
\<close>

definition world_stuck :: world where
  "world_stuck = world_ok\<lparr>browser_close_result :=
     (\<lambda>b n. if b = 1 then Some ''Protocol error: Connection closed'' else None)\<rparr>"

definition two_idle :: process where
  "two_idle = perform [PoolEvent (CallGet 0), PoolEvent (LaunchDone 0 True),
     PoolEvent (CallGet 1), PoolEvent (LaunchDone 1 True), PoolEvent (CallRelease 0 True),
     PoolEvent (CallRelease 1 True)] (boot 3)"

definition one_on_loan :: "action list" where
  "one_on_loan = [PoolEvent (CallGet 0), PoolEvent (LaunchDone 0 True), PoolEvent (CallGet 1),
     PoolEvent (LaunchDone 1 True), PoolEvent (CallRelease 1 True)]"

section \<open>The pool under overlapping calls\<close>

lemma last_notin_butlast: "distinct xs \<Longrightarrow> xs \<noteq> [] \<Longrightarrow> last xs \<notin> set (butlast xs)"
  by (induction xs) (auto dest: in_set_butlastD)

lemma inv_start: "pool_inv (start m)"
  by (simp add: pool_inv_def start_def BrowserPool_def)

lemma inv_get:
  assumes "pool_inv s"
  shows "pool_inv (step_get c s)"
  using assms unfolding pool_inv_def step_get_def getBrowser_enter_def
  by (auto simp: distinct_butlast last_notin_butlast dest: in_set_butlastD) (metis last_in_set)+

lemma inv_launched: "pool_inv s \<Longrightarrow> pool_inv (step_launched c ok s)"
  unfolding pool_inv_def step_launched_def getBrowser_launched_def
  by (auto simp: less_Suc_eq)

lemma inv_release: "pool_inv s \<Longrightarrow> pool_inv (step_release c ok s)"
  unfolding pool_inv_def step_release_def releaseBrowser_settle_def
  by (auto split: cstate.splits)

lemma inv_closed: "pool_inv s \<Longrightarrow> pool_inv (step_closed c ok s)"
  unfolding pool_inv_def step_closed_def
  by (auto split: cstate.splits)

lemma inv_cleanup: "pool_inv s \<Longrightarrow> pool_inv (step_cleanup s)"
  unfolding pool_inv_def step_cleanup_def cleanup_reset_def
  by auto

lemma inv_step: "pool_inv s \<Longrightarrow> pool_inv (step e s)"
  by (cases e) (simp_all add: inv_get inv_launched inv_release inv_closed inv_cleanup)

lemma inv_run: "pool_inv s \<Longrightarrow> pool_inv (run evs s)"
  by (induction evs arbitrary: s) (simp_all add: inv_step)

lemmas step_defs = step_get_def step_launched_def step_release_def step_closed_def
  step_cleanup_def cleanup_reset_def getBrowser_enter_def getBrowser_launched_def
  releaseBrowser_settle_def start_def BrowserPool_def

lemma maxSize_step: "maxSize (the_pool (step e s)) = maxSize (the_pool s)"
  by (cases e) (auto simp: step_defs split: cstate.splits)

lemma maxSize_run: "maxSize (the_pool (run evs s)) = maxSize (the_pool s)"
  by (induction evs arbitrary: s) (simp_all add: maxSize_step)

text \<open>
  C1. Whatever the interleaving of the calls of \<open>getBrowser\<close> and \<open>releaseBrowser\<close> (and
  of \<open>cleanup\<close>) on a pool built with \<open>maxSize = m\<close>: \<open>activeBrowsers\<close> is at most \<open>m\<close>;
  a browser that a caller holds, from the idle list, from a launch or from the hand-off to
  a waiter, is not in the idle list and no other caller holds it; and no browser is twice
  in the idle list.
\<close>

theorem pool_bounded_and_exclusive:
  "activeBrowsers (the_pool (run evs (start m))) \<le> int m \<and>
   distinct (browsers (the_pool (run evs (start m)))) \<and>
   (\<forall>c b. cst (run evs (start m)) c = Holding b \<longrightarrow>
      b \<notin> set (browsers (the_pool (run evs (start m)))) \<and>
      (\<forall>c'. cst (run evs (start m)) c' = Holding b \<longrightarrow> c' = c))"
proof -
  have inv: "pool_inv (run evs (start m))"
    by (rule inv_run) (rule inv_start)
  have "maxSize (the_pool (run evs (start m))) = m"
    by (simp add: maxSize_run start_def BrowserPool_def)
  with inv show ?thesis
    unfolding pool_inv_def by auto
qed

text \<open>
  With \<open>maxSize = 1\<close>: caller 0 launches browser 0, caller 1 has to wait, and the release
  of caller 0 hands browser 0 to caller 1.
\<close>

theorem pool_bounded_and_exclusive_witness:
  "cst (run [CallGet 0, LaunchDone 0 True, CallGet 1, CallRelease 0 True] (start 1)) 1 = Holding 0 \<and>
   cst (run [CallGet 0, LaunchDone 0 True, CallGet 1, CallRelease 0 True] (start 1)) 0 \<noteq> Holding 0 \<and>
   0 \<notin> set (browsers (the_pool
      (run [CallGet 0, LaunchDone 0 True, CallGet 1, CallRelease 0 True] (start 1)))) \<and>
   activeBrowsers (the_pool
      (run [CallGet 0, LaunchDone 0 True, CallGet 1, CallRelease 0 True] (start 1))) \<le> 1"
proof -
  have h: "cst (run [CallGet 0, LaunchDone 0 True, CallGet 1, CallRelease 0 True] (start 1)) 1
             = Holding 0"
    by (simp add: step_defs)
  show ?thesis
    using h pool_bounded_and_exclusive
      [of "[CallGet 0, LaunchDone 0 True, CallGet 1, CallRelease 0 True]" 1]
    by fastforce
qed

section \<open>getBrowser\<close>

lemma waiting_until_handoff:
  assumes "cst s c = Waiting" and "cst (step e s) c \<noteq> Waiting"
  shows "\<exists>r b. e = CallRelease r True \<and> cst s r = Holding b \<and> queue (the_pool s) \<noteq> []
           \<and> hd (queue (the_pool s)) = c \<and> cst (step e s) c = Holding b"
  using assms
  by (cases e) (auto simp: step_defs split: cstate.splits if_splits)

lemma getBrowser_pop:
  "browsers p \<noteq> [] \<Longrightarrow>
   getBrowser w c p = (p\<lparr>browsers := butlast (browsers p)\<rparr>, Resolved (last (browsers p)), [])"
  by (simp add: getBrowser_def getBrowser_enter_def)

lemma getBrowser_launch_ok:
  "browsers p = [] \<Longrightarrow> activeBrowsers p < int (maxSize p) \<Longrightarrow> launch_result w = Inr b \<Longrightarrow>
   getBrowser w c p = (p\<lparr>activeBrowsers := activeBrowsers p + 1\<rparr>, Resolved b, [Launch])"
  by (simp add: getBrowser_def getBrowser_enter_def getBrowser_launched_def)

lemma getBrowser_launch_fails:
  "browsers p = [] \<Longrightarrow> activeBrowsers p < int (maxSize p) \<Longrightarrow> launch_result w = Inl e \<Longrightarrow>
   getBrowser w c p = (p, Rejected e, [Launch])"
  by (simp add: getBrowser_def getBrowser_enter_def getBrowser_launched_def)

lemma getBrowser_queues:
  "browsers p = [] \<Longrightarrow> \<not> activeBrowsers p < int (maxSize p) \<Longrightarrow>
   getBrowser w c p = (p\<lparr>queue := queue p @ [c]\<rparr>, Pending, [])"
  by (simp add: getBrowser_def getBrowser_enter_def)

lemma releaseBrowser_idles:
  "release_cleanup w b = (None, tr) \<Longrightarrow> queue p = [] \<Longrightarrow> length (browsers p) < maxSize p \<Longrightarrow>
   releaseBrowser w b p = (p\<lparr>browsers := browsers p @ [b]\<rparr>, None, None, tr)"
  by (simp add: releaseBrowser_def releaseBrowser_settle_def)

lemma getBrowser_after_release:
  "release_cleanup w b = (None, tr) \<Longrightarrow> queue p = [] \<Longrightarrow> length (browsers p) < maxSize p \<Longrightarrow>
   getBrowser w c (fst (releaseBrowser w b p)) = (p, Resolved b, [])"
  by (simp add: releaseBrowser_idles getBrowser_pop)

text \<open>
  C2. One call of \<open>getBrowser\<close>. If the idle list is not empty, its last element, the
  browser released last, is taken off and returned at once. Otherwise, if
  \<open>activeBrowsers < maxSize\<close>, \<open>activeBrowsers\<close> is incremented and the browser that
  \<open>puppeteer.launch\<close> creates is returned; if the launch fails, \<open>activeBrowsers\<close> is
  taken back to its old value and the error of the launch is what the caller gets, after
  the one launch. Otherwise the caller is appended to the queue and stays pending; a
  waiting caller leaves that state only when a release with a successful cleanup finds it
  at the head of the queue and hands it the browser released.
\<close>

theorem getBrowser_cases:
  "(browsers p \<noteq> [] \<longrightarrow>
      getBrowser w c p = (p\<lparr>browsers := butlast (browsers p)\<rparr>, Resolved (last (browsers p)), [])) \<and>
   (browsers p = [] \<and> activeBrowsers p < int (maxSize p) \<longrightarrow>
      (\<forall>b. launch_result w = Inr b \<longrightarrow>
         getBrowser w c p = (p\<lparr>activeBrowsers := activeBrowsers p + 1\<rparr>, Resolved b, [Launch])) \<and>
      (\<forall>e. launch_result w = Inl e \<longrightarrow> getBrowser w c p = (p, Rejected e, [Launch]))) \<and>
   (browsers p = [] \<and> \<not> activeBrowsers p < int (maxSize p) \<longrightarrow>
      getBrowser w c p = (p\<lparr>queue := queue p @ [c]\<rparr>, Pending, [])) \<and>
   (\<forall>b tr. release_cleanup w b = (None, tr) \<and> queue p = [] \<and> length (browsers p) < maxSize p \<longrightarrow>
      getBrowser w c (fst (releaseBrowser w b p)) = (p, Resolved b, [])) \<and>
   (\<forall>s e. cst s c = Waiting \<and> cst (step e s) c \<noteq> Waiting \<longrightarrow>
      (\<exists>r b. e = CallRelease r True \<and> cst s r = Holding b \<and> queue (the_pool s) \<noteq> [] \<and>
             hd (queue (the_pool s)) = c \<and> cst (step e s) c = Holding b))"
  using getBrowser_pop [of p w c] getBrowser_launch_ok [of p w _ c]
    getBrowser_launch_fails [of p w _ c] getBrowser_queues [of p w c]
    getBrowser_after_release [of w _ _ p c] waiting_until_handoff [of _ c]
  by blast

lemma release_cleanup_ok: "release_cleanup world_ok b = (None, [Pages b, ClosePage b 1, ClosePage b 2])"
  by (simp add: release_cleanup_def world_ok_def)

text \<open>The five cases on concrete pools.\<close>

theorem getBrowser_cases_witness:
  "getBrowser world_ok 9 pool_idle = (pool_idle\<lparr>browsers := [4]\<rparr>, Resolved 5, []) \<and>
   getBrowser world_ok 9 (BrowserPool 3) = ((BrowserPool 3)\<lparr>activeBrowsers := 1\<rparr>, Resolved 7, [Launch]) \<and>
   getBrowser world_down 9 (BrowserPool 3)
     = (BrowserPool 3, Rejected ''Failed to launch the browser process'', [Launch]) \<and>
   getBrowser world_ok 9 pool_full = (pool_full\<lparr>queue := [8, 9]\<rparr>, Pending, []) \<and>
   getBrowser world_ok 9 (fst (releaseBrowser world_ok 6 pool_idle)) = (pool_idle, Resolved 6, []) \<and>
   cst (run [CallGet 0, LaunchDone 0 True, CallGet 9] (start 1)) 9 = Waiting \<and>
   cst (step (CallRelease 0 True) (run [CallGet 0, LaunchDone 0 True, CallGet 9] (start 1))) 9 = Holding 0"
proof -
  have a: "browsers pool_idle \<noteq> []" by (simp add: pool_idle_def)
  have b: "browsers (BrowserPool 3) = [] \<and> activeBrowsers (BrowserPool 3) < int (maxSize (BrowserPool 3))"
    by (simp add: BrowserPool_def)
  have c: "launch_result world_ok = Inr 7" by (simp add: world_ok_def)
  have d: "launch_result world_down = Inl ''Failed to launch the browser process''"
    by (simp add: world_down_def)
  have e: "browsers pool_full = [] \<and> \<not> activeBrowsers pool_full < int (maxSize pool_full)"
    by (simp add: pool_full_def)
  have f: "release_cleanup world_ok 6 = (None, [Pages 6, ClosePage 6 1, ClosePage 6 2]) \<and>
           queue pool_idle = [] \<and> length (browsers pool_idle) < maxSize pool_idle"
    by (simp add: release_cleanup_ok pool_idle_def)
  have g: "cst (run [CallGet 0, LaunchDone 0 True, CallGet 9] (start 1)) 9 = Waiting"
    by (simp add: step_defs)
  have h: "cst (step (CallRelease 0 True) (run [CallGet 0, LaunchDone 0 True, CallGet 9] (start 1))) 9 \<noteq> Waiting"
    by (simp add: step_defs)
  have 1: "getBrowser world_ok 9 pool_idle = (pool_idle\<lparr>browsers := [4]\<rparr>, Resolved 5, [])"
    using a getBrowser_cases [of pool_idle world_ok 9] by (simp add: pool_idle_def)
  have 2: "getBrowser world_ok 9 (BrowserPool 3) = ((BrowserPool 3)\<lparr>activeBrowsers := 1\<rparr>, Resolved 7, [Launch])"
    using b c getBrowser_cases [of "BrowserPool 3" world_ok 9] by (simp add: BrowserPool_def)
  have 3: "getBrowser world_down 9 (BrowserPool 3)
     = (BrowserPool 3, Rejected ''Failed to launch the browser process'', [Launch])"
    using b d getBrowser_cases [of "BrowserPool 3" world_down 9] by simp
  have 4: "getBrowser world_ok 9 pool_full = (pool_full\<lparr>queue := [8, 9]\<rparr>, Pending, [])"
    using e getBrowser_cases [of pool_full world_ok 9] by (simp add: pool_full_def)
  have 5: "getBrowser world_ok 9 (fst (releaseBrowser world_ok 6 pool_idle)) = (pool_idle, Resolved 6, [])"
    using f getBrowser_cases [of pool_idle world_ok 9] by blast
  have 6: "cst (step (CallRelease 0 True) (run [CallGet 0, LaunchDone 0 True, CallGet 9] (start 1))) 9 = Holding 0"
    using g h getBrowser_cases [of pool_idle world_ok 9] by (simp add: step_defs)
  from 1 2 3 4 5 6 g show ?thesis by blast
qed

section \<open>releaseBrowser\<close>

text \<open>
  What one call of \<open>releaseBrowser\<close> does, case by case: the cleanup closes every page
  but the first; then the browser goes to the oldest waiter, or to the idle list, or is
  closed; after a failed cleanup it is closed, \<open>activeBrowsers\<close> is decremented and the
  error is logged, as long as the close in the \<open>catch\<close> block resolves.
\<close>

lemma close_pages_all_ok:
  "\<forall>pg \<in> set pgs. page_close_result w pg = None \<Longrightarrow>
   close_pages w b pgs = (None, map (ClosePage b) pgs)"
  by (induction pgs) simp_all

lemma release_cleanup_closes_all_but_first:
  "pages_result w b = Inr pgs \<Longrightarrow> \<forall>pg \<in> set (drop 1 pgs). page_close_result w pg = None \<Longrightarrow>
   release_cleanup w b = (None, Pages b # map (ClosePage b) (drop 1 pgs))"
  by (simp add: release_cleanup_def close_pages_all_ok)

lemma releaseBrowser_hands_off:
  "release_cleanup w b = (None, tr) \<Longrightarrow> queue p \<noteq> [] \<Longrightarrow>
   releaseBrowser w b p = (p\<lparr>queue := tl (queue p)\<rparr>, None, Some (hd (queue p)), tr)"
  by (simp add: releaseBrowser_def releaseBrowser_settle_def)

lemma releaseBrowser_closes:
  "release_cleanup w b = (None, tr) \<Longrightarrow> queue p = [] \<Longrightarrow> \<not> length (browsers p) < maxSize p \<Longrightarrow>
   browser_close_result w b 0 = None \<Longrightarrow>
   releaseBrowser w b p
     = (p\<lparr>activeBrowsers := activeBrowsers p - 1\<rparr>, None, None, tr @ [CloseBrowser b])"
  by (simp add: releaseBrowser_def releaseBrowser_settle_def)

lemma releaseBrowser_cleanup_fails:
  "release_cleanup w b = (Some err, tr) \<Longrightarrow> browser_close_result w b 0 = None \<Longrightarrow>
   releaseBrowser w b p
     = (p\<lparr>activeBrowsers := activeBrowsers p - 1\<rparr>, None, None,
        tr @ [CloseBrowser b, LogError err])"
  by (simp add: releaseBrowser_def releaseBrowser_catch_def)

lemma releaseBrowser_close_rejects:
  "release_cleanup w b = (Some err, tr) \<Longrightarrow> browser_close_result w b 0 = Some e' \<Longrightarrow>
   releaseBrowser w b p = (p, Some e', None, tr @ [CloseBrowser b])"
  by (simp add: releaseBrowser_def releaseBrowser_catch_def)

text \<open>
  C3. The claim: after a failed cleanup the browser is closed, \<open>activeBrowsers\<close> is
  decremented and no failure reaches the caller of \<open>releaseBrowser\<close>. The code at a
  browser whose \<open>pages()\<close> rejects and whose \<open>close()\<close> rejects too: the close of the
  \<open>catch\<close> block is not in a \<open>try\<close> of its own (as the close in \<open>cleanup\<close> is), so
  \<open>releaseBrowser\<close> rejects with the error of the close, and \<open>activeBrowsers\<close> keeps
  its value.
\<close>

theorem releaseBrowser_rejects_at_failed_close:
  "releaseBrowser world_down 0 pool_one
     = (pool_one, Some ''Protocol error: Connection closed'', None, [Pages 0, CloseBrowser 0])"
  by (simp add: releaseBrowser_def releaseBrowser_catch_def release_cleanup_def world_down_def)

section \<open>cleanup and the waiters\<close>

lemma closes_append: "closes (xs @ ys) = closes xs @ closes ys"
  by (induction xs rule: closes.induct) simp_all

lemma closes_cleanup_close: "closes (cleanup_close w b) = [b]"
  by (simp add: cleanup_close_def split: option.splits)

lemma closes_cleanup: "closes (concat (map (cleanup_close w) bs)) = bs"
  by (induction bs) (simp_all add: closes_append closes_cleanup_close)

lemma close_in_closes: "CloseBrowser b \<in> set es \<longleftrightarrow> b \<in> set (closes es)"
  by (induction es rule: closes.induct) auto

text \<open>
  C9 (as amended). \<open>cleanup\<close> leaves the queue as it is and settles no waiter. The
  waiters are not lost to the pool: when a caller that still holds a browser releases it
  after the cleanup, the waiter at the head of the queue gets that browser.
\<close>

theorem cleanup_keeps_waiters:
  "queue (fst (cleanup w p)) = queue p \<and>
   cst (step CallCleanup s) = cst s \<and>
   queue (the_pool (step CallCleanup s)) = queue (the_pool s) \<and>
   (\<forall>r b. cst s r = Holding b \<and> queue (the_pool s) \<noteq> [] \<longrightarrow>
      cst (step (CallRelease r True) (step CallCleanup s)) (hd (queue (the_pool s))) = Holding b)"
  by (auto simp: cleanup_def step_defs)

text \<open>
  C9 as stated fails: caller 1 waits in the queue when \<open>cleanup\<close> runs, and the release
  of caller 0 after the cleanup resolves its promise with browser 0.
\<close>

theorem cleanup_waiter_counterexample:
  "cst (run [CallGet 0, LaunchDone 0 True, CallGet 1] (start 1)) 1 = Waiting \<and>
   queue (the_pool (run [CallGet 0, LaunchDone 0 True, CallGet 1, CallCleanup] (start 1))) = [1] \<and>
   cst (run [CallGet 0, LaunchDone 0 True, CallGet 1, CallCleanup, CallRelease 0 True] (start 1)) 1
     = Holding 0"
  by (simp add: step_defs)

text \<open>The same run, through the theorem.\<close>

theorem cleanup_keeps_waiters_witness:
  "cst (run [CallGet 0, LaunchDone 0 True, CallGet 1] (start 1)) 0 = Holding 0 \<and>
   queue (the_pool (run [CallGet 0, LaunchDone 0 True, CallGet 1] (start 1))) = [1] \<and>
   cst (step (CallRelease 0 True) (step CallCleanup (run [CallGet 0, LaunchDone 0 True, CallGet 1] (start 1)))) 1
     = Holding 0"
proof -
  have h: "cst (run [CallGet 0, LaunchDone 0 True, CallGet 1] (start 1)) 0 = Holding 0"
    by (simp add: step_defs)
  have q: "queue (the_pool (run [CallGet 0, LaunchDone 0 True, CallGet 1] (start 1))) = [1]"
    by (simp add: step_defs)
  show ?thesis
    using h q cleanup_keeps_waiters [of world_ok pool_one "run [CallGet 0, LaunchDone 0 True, CallGet 1] (start 1)"]
    by fastforce
qed

section \<open>scrapeDividendData\<close>

lemma goto_loop_2:
  "goto_loop g url (Suc (Suc 0)) =
     (case g (Suc (Suc 0)) of None \<Rightarrow> (None, [Goto url]) | Some e \<Rightarrow> (Some e, [Goto url]))"
  by (simp add: goto_loop.simps [of g url "Suc (Suc 0)"] maxRetries_def split: option.splits)

lemma goto_loop_1:
  "goto_loop g url (Suc 0) =
     (case g (Suc 0) of None \<Rightarrow> (None, [Goto url])
      | Some e \<Rightarrow> (case goto_loop g url (Suc (Suc 0)) of (r, tr) \<Rightarrow> (r, Goto url # Sleep 2000 # tr)))"
  by (simp add: goto_loop.simps [of g url "Suc 0"] maxRetries_def split: option.splits)

lemma goto_loop_0:
  "goto_loop g url 0 =
     (case g 0 of None \<Rightarrow> (None, [Goto url])
      | Some e \<Rightarrow> (case goto_loop g url (Suc 0) of (r, tr) \<Rightarrow> (r, Goto url # Sleep 1000 # tr)))"
  by (simp add: goto_loop.simps [of g url 0] maxRetries_def split: option.splits)

lemma goto_first: "g 0 = None \<Longrightarrow> goto_loop g url 0 = (None, [Goto url])"
  by (simp add: goto_loop_0)

lemma goto_second:
  "g 0 = Some e1 \<Longrightarrow> g 1 = None \<Longrightarrow>
   goto_loop g url 0 = (None, [Goto url, Sleep 1000, Goto url])"
  by (simp add: goto_loop_0 goto_loop_1)

lemma goto_third:
  "g 0 = Some e1 \<Longrightarrow> g 1 = Some e2 \<Longrightarrow> g 2 = None \<Longrightarrow>
   goto_loop g url 0 = (None, [Goto url, Sleep 1000, Goto url, Sleep 2000, Goto url])"
  by (simp add: goto_loop_0 goto_loop_1 goto_loop_2 numeral_2_eq_2)

lemma goto_exhausted:
  "g 0 = Some e1 \<Longrightarrow> g 1 = Some e2 \<Longrightarrow> g 2 = Some e3 \<Longrightarrow>
   goto_loop g url 0 = (Some e3, [Goto url, Sleep 1000, Goto url, Sleep 2000, Goto url])"
  by (simp add: goto_loop_0 goto_loop_1 goto_loop_2 numeral_2_eq_2)

lemma navigations_goto_loop: "navigations (snd (goto_loop g url 0)) \<le> 3"
  by (simp add: goto_loop_0 goto_loop_1 goto_loop_2 split: option.splits prod.splits)

lemma releases_goto_loop: "releases (snd (goto_loop g url 0)) = []"
  by (simp add: goto_loop_0 goto_loop_1 goto_loop_2 split: option.splits prod.splits)

lemma extraction_doc_ko: "extraction doc_ko 5000 = Some data_ko"
  by (simp add: extraction_def selectors_def doc_ko_def td_def extractText_def trim_def
      whitespace_def data_ko_def js_def)

lemma releases_append: "releases (xs @ ys) = releases xs @ releases ys"
  by (induction xs rule: releases.induct) simp_all

lemma navigations_append: "navigations (xs @ ys) = navigations xs + navigations ys"
  by (induction xs rule: navigations.induct) simp_all

lemma releases_scrape_page: "releases (snd (scrape_page ss b t)) = []"
  using releases_goto_loop [of "goto_result ss" "url_of t"]
  by (auto simp: scrape_page_def and_then_def releases_append split: option.splits prod.splits)

lemma navigations_scrape_page: "navigations (snd (scrape_page ss b t)) \<le> 3"
  using navigations_goto_loop [of "goto_result ss" "url_of t"]
  by (auto simp: scrape_page_def and_then_def navigations_append split: option.splits prod.splits)

lemma navigations_scrape: "navigations (snd (scrapeDividendData ss t)) \<le> 3"
proof (cases "acquire_result ss")
  case (Resolved b)
  obtain r tr where p: "scrape_page ss b t = (r, tr)"
    by (cases "scrape_page ss b t")
  with navigations_scrape_page [of ss b t] have "navigations tr \<le> 3"
    by simp
  with Resolved p show ?thesis
    by (simp add: scrapeDividendData_def navigations_append split: option.splits)
qed (simp_all add: scrapeDividendData_def)

lemma scrape_acquired:
  assumes "acquire_result ss = Resolved b"
  shows "releases (snd (scrapeDividendData ss t)) = [b]"
    and "last (snd (scrapeDividendData ss t)) = ReleaseBrowser b"
    and "fst (scrapeDividendData ss t) \<noteq> None"
  using assms releases_scrape_page [of ss b t]
  by (auto simp: scrapeDividendData_def releases_append split: option.splits prod.splits)

lemma scrape_not_acquired:
  assumes "acquire_result ss = Rejected e"
  shows "scrapeDividendData ss t = (Some (Inl e), [AcquireBrowser])"
  using assms by (simp add: scrapeDividendData_def)

lemma scrape_pending:
  assumes "acquire_result ss = Pending"
  shows "scrapeDividendData ss t = (None, [AcquireBrowser])"
  using assms by (simp add: scrapeDividendData_def)

text \<open>
  C4. A call of \<open>scrapeDividendData\<close> that got its browser returns (with data, with
  \<open>null\<close> or with an exception of any step) after it has called \<open>releaseBrowser\<close> on
  that browser exactly once, as its last effect; a call whose \<open>getBrowser\<close> rejects
  throws that error and releases nothing.
\<close>

theorem scrape_releases_once:
  "(\<forall>b. acquire_result ss = Resolved b \<longrightarrow>
      fst (scrapeDividendData ss t) \<noteq> None \<and>
      releases (snd (scrapeDividendData ss t)) = [b] \<and>
      last (snd (scrapeDividendData ss t)) = ReleaseBrowser b) \<and>
   (\<forall>e. acquire_result ss = Rejected e \<longrightarrow>
      fst (scrapeDividendData ss t) = Some (Inl e) \<and>
      releases (snd (scrapeDividendData ss t)) = [])"
  using scrape_acquired [of ss _ t] scrape_not_acquired [of ss _ t]
  by auto

lemma scrape_ok:
  "scrapeDividendData session_ok (js ''KO'')
     = (Some (Inr (Some data_ko)),
        [AcquireBrowser, NewPage 2, SetUserAgent, SetViewport,
         Goto (js ''https://stockevents.app/en/stock/KO/dividends''), WaitForTable, Evaluate,
         ReleaseBrowser 2])"
  by (simp add: scrapeDividendData_def scrape_page_def and_then_def session_ok_def goto_loop_0
      extraction_doc_ko url_of_def js_def)

lemma scrape_flaky:
  "scrapeDividendData session_flaky (js ''KO'')
     = (Some (Inr (Some data_ko)),
        [AcquireBrowser, NewPage 2, SetUserAgent, SetViewport,
         Goto (js ''https://stockevents.app/en/stock/KO/dividends''), Sleep 1000,
         Goto (js ''https://stockevents.app/en/stock/KO/dividends''), Sleep 2000,
         Goto (js ''https://stockevents.app/en/stock/KO/dividends''), WaitForTable, Evaluate,
         ReleaseBrowser 2])"
  by (simp add: scrapeDividendData_def scrape_page_def and_then_def session_flaky_def session_ok_def
      goto_loop_0 goto_loop_1 goto_loop_2 extraction_doc_ko url_of_def js_def)

lemma scrape_unreachable:
  "scrapeDividendData session_unreachable (js ''KO'')
     = (Some (Inl ''Navigation timeout of 30000 ms exceeded''),
        [AcquireBrowser, NewPage 2, SetUserAgent, SetViewport,
         Goto (js ''https://stockevents.app/en/stock/KO/dividends''), Sleep 1000,
         Goto (js ''https://stockevents.app/en/stock/KO/dividends''), Sleep 2000,
         Goto (js ''https://stockevents.app/en/stock/KO/dividends''), ReleaseBrowser 2])"
  by (simp add: scrapeDividendData_def scrape_page_def and_then_def session_unreachable_def
      session_ok_def goto_loop_0 goto_loop_1 goto_loop_2 url_of_def js_def)

text \<open>A scrape that returns data, one that throws in the navigation, one without browser.\<close>

theorem scrape_releases_once_witness:
  "releases (snd (scrapeDividendData session_ok (js ''KO''))) = [2] \<and>
   fst (scrapeDividendData session_ok (js ''KO'')) = Some (Inr (Some data_ko)) \<and>
   releases (snd (scrapeDividendData session_unreachable (js ''KO''))) = [2] \<and>
   fst (scrapeDividendData session_unreachable (js ''KO''))
     = Some (Inl ''Navigation timeout of 30000 ms exceeded'') \<and>
   releases (snd (scrapeDividendData session_no_browser (js ''KO''))) = [] \<and>
   fst (scrapeDividendData session_no_browser (js ''KO''))
     = Some (Inl ''Failed to launch the browser process'')"
proof -
  have a: "acquire_result session_ok = Resolved 2"
    by (simp add: session_ok_def)
  have b: "acquire_result session_unreachable = Resolved 2"
    by (simp add: session_unreachable_def session_ok_def)
  have c: "acquire_result session_no_browser = Rejected ''Failed to launch the browser process''"
    by (simp add: session_no_browser_def session_ok_def)
  show ?thesis
    using a b c scrape_releases_once [of session_ok "js ''KO''"]
      scrape_releases_once [of session_unreachable "js ''KO''"]
      scrape_releases_once [of session_no_browser "js ''KO''"]
      scrape_ok scrape_unreachable
    by simp
qed

lemma scrape_page_third:
  assumes "newPage_result ss = None" "setUserAgent_result ss = None" "setViewport_result ss = None"
    and "goto_result ss 0 = Some e1" "goto_result ss 1 = Some e2" "goto_result ss 2 = None"
    and "table_result ss = None" "evaluate_result ss = None"
  shows "scrape_page ss b t
     = (Inr (extraction (page_document ss) (evaluated_at ss)),
        [NewPage b, SetUserAgent, SetViewport, Goto (url_of t), Sleep 1000, Goto (url_of t),
         Sleep 2000, Goto (url_of t), WaitForTable, Evaluate])"
  using assms goto_third [of "goto_result ss" e1 e2 "url_of t"]
  by (simp add: scrape_page_def and_then_def)

lemma scrape_page_exhausted:
  assumes "newPage_result ss = None" "setUserAgent_result ss = None" "setViewport_result ss = None"
    and "goto_result ss 0 = Some e1" "goto_result ss 1 = Some e2" "goto_result ss 2 = Some e3"
  shows "scrape_page ss b t
     = (Inl e3,
        [NewPage b, SetUserAgent, SetViewport, Goto (url_of t), Sleep 1000, Goto (url_of t),
         Sleep 2000, Goto (url_of t)])"
  using assms goto_exhausted [of "goto_result ss" e1 e2 e3 "url_of t"]
  by (simp add: scrape_page_def and_then_def)

lemma scrape_page_proceeds:
  assumes "newPage_result ss = None" "setUserAgent_result ss = None" "setViewport_result ss = None"
    and "goto_result ss 0 = Some e1" "goto_result ss 1 = Some e2" "goto_result ss 2 = None"
  shows "navigations (snd (scrape_page ss b t)) = 3"
    and "take 9 (snd (scrape_page ss b t))
     = [NewPage b, SetUserAgent, SetViewport, Goto (url_of t), Sleep 1000, Goto (url_of t),
        Sleep 2000, Goto (url_of t), WaitForTable]"
  using assms goto_third [of "goto_result ss" e1 e2 "url_of t"]
  by (auto simp: scrape_page_def and_then_def split: option.splits)

text \<open>
  C5 (as amended). \<open>page.goto\<close> is called at most 3 times. The loop sleeps 1000 ms after
  the first failed attempt and 2000 ms after the second, and makes no attempt after the
  third. With two failures and a success the function goes on to the wait for the table
  after exactly 3 attempts, and to the extraction and the result when the later steps
  succeed. With three failures the loop throws the error of the third attempt as it is:
  it is the outcome of the \<open>try\<close> block, and what the caller gets when
  \<open>releaseBrowser\<close> returns in the \<open>finally\<close> block.
\<close>

theorem navigation_retries:
  "navigations (snd (scrapeDividendData ss t)) \<le> 3 \<and>
   navigations (snd (goto_loop g url 0)) \<le> 3 \<and>
   (g 0 = None \<longrightarrow> goto_loop g url 0 = (None, [Goto url])) \<and>
   (\<forall>e1. g 0 = Some e1 \<and> g 1 = None \<longrightarrow>
      goto_loop g url 0 = (None, [Goto url, Sleep 1000, Goto url])) \<and>
   (\<forall>e1 e2. g 0 = Some e1 \<and> g 1 = Some e2 \<and> g 2 = None \<longrightarrow>
      goto_loop g url 0 = (None, [Goto url, Sleep 1000, Goto url, Sleep 2000, Goto url])) \<and>
   (\<forall>e1 e2 e3. g 0 = Some e1 \<and> g 1 = Some e2 \<and> g 2 = Some e3 \<longrightarrow>
      goto_loop g url 0 = (Some e3, [Goto url, Sleep 1000, Goto url, Sleep 2000, Goto url])) \<and>
   (\<forall>b e1 e2.
      acquire_result ss = Resolved b \<and> newPage_result ss = None \<and>
      setUserAgent_result ss = None \<and> setViewport_result ss = None \<and>
      goto_result ss 0 = Some e1 \<and> goto_result ss 1 = Some e2 \<and> goto_result ss 2 = None \<and>
      table_result ss = None \<and> evaluate_result ss = None \<and> release_result ss = None \<longrightarrow>
      scrapeDividendData ss t
        = (Some (Inr (extraction (page_document ss) (evaluated_at ss))),
           [AcquireBrowser, NewPage b, SetUserAgent, SetViewport, Goto (url_of t), Sleep 1000,
            Goto (url_of t), Sleep 2000, Goto (url_of t), WaitForTable, Evaluate,
            ReleaseBrowser b])) \<and>
   (\<forall>b e1 e2.
      newPage_result ss = None \<and> setUserAgent_result ss = None \<and>
      setViewport_result ss = None \<and>
      goto_result ss 0 = Some e1 \<and> goto_result ss 1 = Some e2 \<and> goto_result ss 2 = None \<longrightarrow>
      navigations (snd (scrape_page ss b t)) = 3 \<and>
      take 9 (snd (scrape_page ss b t))
        = [NewPage b, SetUserAgent, SetViewport, Goto (url_of t), Sleep 1000, Goto (url_of t),
           Sleep 2000, Goto (url_of t), WaitForTable]) \<and>
   (\<forall>b e1 e2 e3.
      acquire_result ss = Resolved b \<and> newPage_result ss = None \<and>
      setUserAgent_result ss = None \<and> setViewport_result ss = None \<and>
      goto_result ss 0 = Some e1 \<and> goto_result ss 1 = Some e2 \<and> goto_result ss 2 = Some e3 \<longrightarrow>
      fst (scrape_page ss b t) = Inl e3 \<and>
      navigations (snd (scrape_page ss b t)) = 3 \<and>
      (release_result ss = None \<longrightarrow>
         scrapeDividendData ss t
           = (Some (Inl e3),
              [AcquireBrowser, NewPage b, SetUserAgent, SetViewport, Goto (url_of t), Sleep 1000,
               Goto (url_of t), Sleep 2000, Goto (url_of t), ReleaseBrowser b])))"
proof -
  have c1: "navigations (snd (scrapeDividendData ss t)) \<le> 3"
    by (rule navigations_scrape)
  have c2: "navigations (snd (goto_loop g url 0)) \<le> 3"
    by (rule navigations_goto_loop)
  have c3: "g 0 = None \<longrightarrow> goto_loop g url 0 = (None, [Goto url])"
    using goto_first [of g url] by blast
  have c4: "\<forall>e1. g 0 = Some e1 \<and> g 1 = None \<longrightarrow>
      goto_loop g url 0 = (None, [Goto url, Sleep 1000, Goto url])"
    using goto_second [of g _ url] by blast
  have c5: "\<forall>e1 e2. g 0 = Some e1 \<and> g 1 = Some e2 \<and> g 2 = None \<longrightarrow>
      goto_loop g url 0 = (None, [Goto url, Sleep 1000, Goto url, Sleep 2000, Goto url])"
    using goto_third [of g _ _ url] by blast
  have c6: "\<forall>e1 e2 e3. g 0 = Some e1 \<and> g 1 = Some e2 \<and> g 2 = Some e3 \<longrightarrow>
      goto_loop g url 0 = (Some e3, [Goto url, Sleep 1000, Goto url, Sleep 2000, Goto url])"
    using goto_exhausted [of g _ _ _ url] by blast
  have c7: "\<forall>b e1 e2.
      acquire_result ss = Resolved b \<and> newPage_result ss = None \<and>
      setUserAgent_result ss = None \<and> setViewport_result ss = None \<and>
      goto_result ss 0 = Some e1 \<and> goto_result ss 1 = Some e2 \<and> goto_result ss 2 = None \<and>
      table_result ss = None \<and> evaluate_result ss = None \<and> release_result ss = None \<longrightarrow>
      scrapeDividendData ss t
        = (Some (Inr (extraction (page_document ss) (evaluated_at ss))),
           [AcquireBrowser, NewPage b, SetUserAgent, SetViewport, Goto (url_of t), Sleep 1000,
            Goto (url_of t), Sleep 2000, Goto (url_of t), WaitForTable, Evaluate,
            ReleaseBrowser b])"
  proof (intro allI impI, elim conjE)
    fix b e1 e2
    assume "acquire_result ss = Resolved b" "newPage_result ss = None"
      "setUserAgent_result ss = None" "setViewport_result ss = None"
      "goto_result ss 0 = Some e1" "goto_result ss 1 = Some e2" "goto_result ss 2 = None"
      "table_result ss = None" "evaluate_result ss = None" "release_result ss = None"
    then show "scrapeDividendData ss t
        = (Some (Inr (extraction (page_document ss) (evaluated_at ss))),
           [AcquireBrowser, NewPage b, SetUserAgent, SetViewport, Goto (url_of t), Sleep 1000,
            Goto (url_of t), Sleep 2000, Goto (url_of t), WaitForTable, Evaluate,
            ReleaseBrowser b])"
      using scrape_page_third [of ss e1 e2 b t]
      by (simp add: scrapeDividendData_def)
  qed
  have c8: "\<forall>b e1 e2.
      newPage_result ss = None \<and> setUserAgent_result ss = None \<and>
      setViewport_result ss = None \<and>
      goto_result ss 0 = Some e1 \<and> goto_result ss 1 = Some e2 \<and> goto_result ss 2 = None \<longrightarrow>
      navigations (snd (scrape_page ss b t)) = 3 \<and>
      take 9 (snd (scrape_page ss b t))
        = [NewPage b, SetUserAgent, SetViewport, Goto (url_of t), Sleep 1000, Goto (url_of t),
           Sleep 2000, Goto (url_of t), WaitForTable]"
  proof (intro allI impI, elim conjE)
    fix b e1 e2
    assume "newPage_result ss = None" "setUserAgent_result ss = None"
      "setViewport_result ss = None"
      "goto_result ss 0 = Some e1" "goto_result ss 1 = Some e2" "goto_result ss 2 = None"
    then show "navigations (snd (scrape_page ss b t)) = 3 \<and>
      take 9 (snd (scrape_page ss b t))
        = [NewPage b, SetUserAgent, SetViewport, Goto (url_of t), Sleep 1000, Goto (url_of t),
           Sleep 2000, Goto (url_of t), WaitForTable]"
      using scrape_page_proceeds [of ss e1 e2 b t] by simp
  qed
  have c9: "\<forall>b e1 e2 e3.
      acquire_result ss = Resolved b \<and> newPage_result ss = None \<and>
      setUserAgent_result ss = None \<and> setViewport_result ss = None \<and>
      goto_result ss 0 = Some e1 \<and> goto_result ss 1 = Some e2 \<and> goto_result ss 2 = Some e3 \<longrightarrow>
      fst (scrape_page ss b t) = Inl e3 \<and>
      navigations (snd (scrape_page ss b t)) = 3 \<and>
      (release_result ss = None \<longrightarrow>
         scrapeDividendData ss t
           = (Some (Inl e3),
              [AcquireBrowser, NewPage b, SetUserAgent, SetViewport, Goto (url_of t), Sleep 1000,
               Goto (url_of t), Sleep 2000, Goto (url_of t), ReleaseBrowser b]))"
  proof (intro allI impI, elim conjE)
    fix b e1 e2 e3
    assume "acquire_result ss = Resolved b" "newPage_result ss = None"
      "setUserAgent_result ss = None" "setViewport_result ss = None"
      "goto_result ss 0 = Some e1" "goto_result ss 1 = Some e2" "goto_result ss 2 = Some e3"
    then show "fst (scrape_page ss b t) = Inl e3 \<and>
      navigations (snd (scrape_page ss b t)) = 3 \<and>
      (release_result ss = None \<longrightarrow>
         scrapeDividendData ss t
           = (Some (Inl e3),
              [AcquireBrowser, NewPage b, SetUserAgent, SetViewport, Goto (url_of t), Sleep 1000,
               Goto (url_of t), Sleep 2000, Goto (url_of t), ReleaseBrowser b]))"
      using scrape_page_exhausted [of ss e1 e2 e3 b t]
      by (simp add: scrapeDividendData_def)
  qed
  from c1 c2 c3 c4 c5 c6 c7 c8 c9 show ?thesis
    by (intro conjI)
qed

text \<open>The site that answers at the third attempt and the site that never answers.\<close>

theorem navigation_retries_witness:
  "scrapeDividendData session_flaky (js ''KO'')
     = (Some (Inr (Some data_ko)),
        [AcquireBrowser, NewPage 2, SetUserAgent, SetViewport,
         Goto (js ''https://stockevents.app/en/stock/KO/dividends''), Sleep 1000,
         Goto (js ''https://stockevents.app/en/stock/KO/dividends''), Sleep 2000,
         Goto (js ''https://stockevents.app/en/stock/KO/dividends''), WaitForTable, Evaluate,
         ReleaseBrowser 2]) \<and>
   scrapeDividendData session_unreachable (js ''KO'')
     = (Some (Inl ''Navigation timeout of 30000 ms exceeded''),
        [AcquireBrowser, NewPage 2, SetUserAgent, SetViewport,
         Goto (js ''https://stockevents.app/en/stock/KO/dividends''), Sleep 1000,
         Goto (js ''https://stockevents.app/en/stock/KO/dividends''), Sleep 2000,
         Goto (js ''https://stockevents.app/en/stock/KO/dividends''), ReleaseBrowser 2]) \<and>
   goto_loop (goto_result session_ok) (js ''u'') 0 = (None, [Goto (js ''u'')]) \<and>
   goto_loop (\<lambda>n. if n = 0 then Some ''net::ERR_TIMED_OUT'' else None) (js ''u'') 0
     = (None, [Goto (js ''u''), Sleep 1000, Goto (js ''u'')])"
proof -
  have f: "acquire_result session_flaky = Resolved 2 \<and> newPage_result session_flaky = None \<and>
      setUserAgent_result session_flaky = None \<and> setViewport_result session_flaky = None \<and>
      goto_result session_flaky 0 = Some ''net::ERR_CONNECTION_RESET'' \<and>
      goto_result session_flaky 1 = Some ''net::ERR_TIMED_OUT'' \<and>
      goto_result session_flaky 2 = None \<and>
      table_result session_flaky = None \<and> evaluate_result session_flaky = None \<and>
      release_result session_flaky = None \<and>
      extraction (page_document session_flaky) (evaluated_at session_flaky) = Some data_ko"
    by (simp add: session_flaky_def session_ok_def extraction_doc_ko)
  have u: "acquire_result session_unreachable = Resolved 2 \<and>
      newPage_result session_unreachable = None \<and>
      setUserAgent_result session_unreachable = None \<and>
      setViewport_result session_unreachable = None \<and>
      goto_result session_unreachable 0 = Some ''net::ERR_CONNECTION_RESET'' \<and>
      goto_result session_unreachable 1 = Some ''net::ERR_TIMED_OUT'' \<and>
      goto_result session_unreachable 2 = Some ''Navigation timeout of 30000 ms exceeded'' \<and>
      release_result session_unreachable = None"
    by (simp add: session_unreachable_def session_ok_def)
  have k: "url_of (js ''KO'') = js ''https://stockevents.app/en/stock/KO/dividends''"
    by (simp add: url_of_def js_def)
  have g0: "goto_result session_ok 0 = None"
    by (simp add: session_ok_def)
  have g1: "(\<lambda>n::nat. if n = 0 then Some ''net::ERR_TIMED_OUT'' else None) 0 = Some ''net::ERR_TIMED_OUT'' \<and>
            (\<lambda>n::nat. if n = 0 then Some ''net::ERR_TIMED_OUT'' else None) 1 = None"
    by simp
  note flaky = navigation_retries [of session_flaky "js ''KO''" "goto_result session_ok" "js ''u''"]
  note unreachable = navigation_retries [of session_unreachable "js ''KO''"
      "\<lambda>n. if n = 0 then Some ''net::ERR_TIMED_OUT'' else None" "js ''u''"]
  note f7 = flaky [THEN conjunct2, THEN conjunct2, THEN conjunct2, THEN conjunct2,
      THEN conjunct2, THEN conjunct2, THEN conjunct1, rule_format,
      of 2 "''net::ERR_CONNECTION_RESET''" "''net::ERR_TIMED_OUT''"]
  note u9 = unreachable [THEN conjunct2, THEN conjunct2, THEN conjunct2, THEN conjunct2,
      THEN conjunct2, THEN conjunct2, THEN conjunct2, THEN conjunct2, rule_format,
      of 2 "''net::ERR_CONNECTION_RESET''" "''net::ERR_TIMED_OUT''"
        "''Navigation timeout of 30000 ms exceeded''"]
  note f3 = flaky [THEN conjunct2, THEN conjunct2, THEN conjunct1, rule_format]
  note u4 = unreachable [THEN conjunct2, THEN conjunct2, THEN conjunct2, THEN conjunct1,
      rule_format, of "''net::ERR_TIMED_OUT''"]
  have 1: "scrapeDividendData session_flaky (js ''KO'')
     = (Some (Inr (Some data_ko)),
        [AcquireBrowser, NewPage 2, SetUserAgent, SetViewport,
         Goto (js ''https://stockevents.app/en/stock/KO/dividends''), Sleep 1000,
         Goto (js ''https://stockevents.app/en/stock/KO/dividends''), Sleep 2000,
         Goto (js ''https://stockevents.app/en/stock/KO/dividends''), WaitForTable, Evaluate,
         ReleaseBrowser 2])"
    using f k f7 by simp
  have 2: "scrapeDividendData session_unreachable (js ''KO'')
     = (Some (Inl ''Navigation timeout of 30000 ms exceeded''),
        [AcquireBrowser, NewPage 2, SetUserAgent, SetViewport,
         Goto (js ''https://stockevents.app/en/stock/KO/dividends''), Sleep 1000,
         Goto (js ''https://stockevents.app/en/stock/KO/dividends''), Sleep 2000,
         Goto (js ''https://stockevents.app/en/stock/KO/dividends''), ReleaseBrowser 2])"
    using u k u9 by simp
  have 3: "goto_loop (goto_result session_ok) (js ''u'') 0 = (None, [Goto (js ''u'')])"
    using g0 f3 by simp
  have 4: "goto_loop (\<lambda>n. if n = 0 then Some ''net::ERR_TIMED_OUT'' else None) (js ''u'') 0
     = (None, [Goto (js ''u''), Sleep 1000, Goto (js ''u'')])"
    using g1 u4 by simp
  from 1 2 3 4 show ?thesis by (intro conjI)
qed

text \<open>
  C5 as stated fails. The site never answers and the close in \<open>releaseBrowser\<close> rejects:
  the caller gets the error of the close, not the error of the third attempt. And the
  error of a navigation that failed three times reaches the caller as the same value as
  the error of a \<open>page.evaluate\<close> that rejects with that message: nothing marks it as a
  failure of the navigation.
\<close>

theorem navigation_retries_counterexample:
  "goto_result session_close_fails 0 = Some ''net::ERR_CONNECTION_RESET'' \<and>
   goto_result session_close_fails 1 = Some ''net::ERR_TIMED_OUT'' \<and>
   goto_result session_close_fails 2 = Some ''Navigation timeout of 30000 ms exceeded'' \<and>
   fst (scrapeDividendData session_close_fails (js ''KO''))
     = Some (Inl ''Protocol error: Connection closed'') \<and>
   fst (scrapeDividendData session_target_closed (js ''KO''))
     = Some (Inl ''Protocol error: Target closed'') \<and>
   fst (scrapeDividendData session_evaluate_fails (js ''KO''))
     = Some (Inl ''Protocol error: Target closed'')"
  by (simp add: scrapeDividendData_def scrape_page_def and_then_def session_close_fails_def
      session_unreachable_def session_target_closed_def session_evaluate_fails_def
      session_ok_def goto_loop_0 goto_loop_1 goto_loop_2)

section \<open>GET /dividend/:ticker and the cache\<close>

lemma upper_ko: "toUpperCase uc (js ''ko'') = js ''KO''"
  by (simp add: toUpperCase_def upper_point_def js_def)

lemma key_ko: "js ''dividend:'' @ js ''KO'' = js ''dividend:KO''"
  by (simp add: js_def)

lemma matches_ko: "matches_ticker (js ''ko'')"
  by (simp add: matches_ticker_def ticker_char_def js_def)

lemma validate_matches: "matches_ticker t \<Longrightarrow> validateTicker t = None"
  by (auto simp: validateTicker_def matches_ticker_def)

lemma error_reply_cases:
  "error_reply e = (408, Failure ''Request timeout'') \<or>
   error_reply e = (503, Failure ''Service unavailable'') \<or>
   error_reply e = (500, Failure ''Scraping failed'')"
  by (simp add: error_reply_def)

lemma get_dividend_hit:
  "validateTicker t = None \<Longrightarrow> cache_get c now (js ''dividend:'' @ toUpperCase uc t) = Some d \<Longrightarrow>
   get_dividend uc ttl c now ss t
     = (c, Some (200, Found (d\<lparr>cached := Some True,
                              cacheAge := Some ((now - scrapedAt (payload d)) div 1000)\<rparr>)),
        [CacheGet (js ''dividend:'' @ toUpperCase uc t)])"
  by (simp add: get_dividend_def Let_def)

lemma get_dividend_fresh:
  "validateTicker t = None \<Longrightarrow> cache_get c now (js ''dividend:'' @ toUpperCase uc t) = None \<Longrightarrow>
   scrapeDividendData ss (toUpperCase uc t) = (Some (Inr (Some d)), tr) \<Longrightarrow>
   exDate d \<noteq> [] \<Longrightarrow> exDate d \<noteq> js ''N/A'' \<Longrightarrow>
   get_dividend uc ttl c now ss t
     = (cache_set ttl c (settled_at ss) (js ''dividend:'' @ toUpperCase uc t)
          \<lparr>ticker = toUpperCase uc t, payload = d, cached = Some False, cacheAge = None\<rparr>,
        Some (200, Found \<lparr>ticker = toUpperCase uc t, payload = d, cached = Some False,
                          cacheAge = None\<rparr>),
        CacheGet (js ''dividend:'' @ toUpperCase uc t) # Scrape (toUpperCase uc t) # tr
          @ [CacheSet (js ''dividend:'' @ toUpperCase uc t)])"
  by (simp add: get_dividend_def Let_def)

lemma get_dividend_miss:
  "validateTicker t = None \<Longrightarrow> cache_get c now (js ''dividend:'' @ toUpperCase uc t) = None \<Longrightarrow>
   take 2 (snd (snd (get_dividend uc ttl c now ss t)))
     = [CacheGet (js ''dividend:'' @ toUpperCase uc t), Scrape (toUpperCase uc t)]"
  by (auto simp: get_dividend_def Let_def split: prod.splits option.splits sum.splits)

lemma get_dividend_miss_reply:
  assumes "validateTicker t = None"
    and "cache_get c now (js ''dividend:'' @ toUpperCase uc t) = None"
  shows "fst (snd (get_dividend uc ttl c now ss t)) = None \<or>
     (\<exists>d. fst (snd (get_dividend uc ttl c now ss t))
             = Some (200, Found \<lparr>ticker = toUpperCase uc t, payload = d, cached = Some False,
                                  cacheAge = None\<rparr>)
           \<and> exDate d \<noteq> [] \<and> exDate d \<noteq> js ''N/A'') \<or>
     fst (snd (get_dividend uc ttl c now ss t)) = Some (404, Failure ''No dividend data found'') \<or>
     fst (snd (get_dividend uc ttl c now ss t)) = Some (408, Failure ''Request timeout'') \<or>
     fst (snd (get_dividend uc ttl c now ss t)) = Some (503, Failure ''Service unavailable'') \<or>
     fst (snd (get_dividend uc ttl c now ss t)) = Some (500, Failure ''Scraping failed'')"
proof -
  obtain r tr where s: "scrapeDividendData ss (toUpperCase uc t) = (r, tr)"
    by (cases "scrapeDividendData ss (toUpperCase uc t)")
  show ?thesis
  proof (cases r)
    case None
    with assms s show ?thesis by (simp add: get_dividend_def Let_def)
  next
    case (Some out)
    show ?thesis
    proof (cases out)
      case (Inl e)
      with assms s Some error_reply_cases [of e] show ?thesis
        by (auto simp: get_dividend_def Let_def)
    next
      case (Inr found)
      show ?thesis
      proof (cases found)
        case None
        with assms s Some Inr show ?thesis by (simp add: get_dividend_def Let_def)
      next
        case (Some d)
        with assms s \<open>r = Some out\<close> Inr error_reply_cases [of "''No valid dividend data found''"]
        show ?thesis
          by (auto simp: get_dividend_def Let_def)
      qed
    qed
  qed
qed

text \<open>
  What the route itself answers for a ticker that matches the pattern: nothing (the
  scrape never returns), the entry of the cache, the result of a fresh scrape, or one of
  404, 408, 503 and 500.
\<close>

lemma get_dividend_replies:
  assumes "matches_ticker t"
  shows "fst (snd (get_dividend uc ttl c now ss t)) = None \<or>
     (\<exists>d. cache_get c now (js ''dividend:'' @ toUpperCase uc t) = Some d \<and>
           fst (snd (get_dividend uc ttl c now ss t))
             = Some (200, Found (d\<lparr>cached := Some True,
                                    cacheAge := Some ((now - scrapedAt (payload d)) div 1000)\<rparr>))) \<or>
     (\<exists>d. cache_get c now (js ''dividend:'' @ toUpperCase uc t) = None \<and>
           fst (snd (get_dividend uc ttl c now ss t))
             = Some (200, Found \<lparr>ticker = toUpperCase uc t, payload = d, cached = Some False,
                                  cacheAge = None\<rparr>)
           \<and> exDate d \<noteq> [] \<and> exDate d \<noteq> js ''N/A'') \<or>
     fst (snd (get_dividend uc ttl c now ss t)) = Some (404, Failure ''No dividend data found'') \<or>
     fst (snd (get_dividend uc ttl c now ss t)) = Some (408, Failure ''Request timeout'') \<or>
     fst (snd (get_dividend uc ttl c now ss t)) = Some (503, Failure ''Service unavailable'') \<or>
     fst (snd (get_dividend uc ttl c now ss t)) = Some (500, Failure ''Scraping failed'')"
proof (cases "cache_get c now (js ''dividend:'' @ toUpperCase uc t)")
  case None
  with get_dividend_miss_reply [OF validate_matches [OF assms] None, of ttl ss]
  show ?thesis by blast
next
  case (Some d)
  with get_dividend_hit [OF validate_matches [OF assms] Some, of ttl ss]
  show ?thesis by simp
qed

lemma serve_dividend_route:
  "serve_dividend True False uc ttl c now ss t = get_dividend uc ttl c now ss t"
  by (simp add: serve_dividend_def middleware_def)

lemma serve_dividend_cases:
  "serve_dividend body_ok over_limit uc ttl c now ss t = get_dividend uc ttl c now ss t \<or>
   fst (snd (serve_dividend body_ok over_limit uc ttl c now ss t))
     = Some (500, Failure ''Something went wrong!'') \<or>
   fst (snd (serve_dividend body_ok over_limit uc ttl c now ss t))
     = Some (429, Failure ''Too many requests, please try again later.'')"
  by (simp add: serve_dividend_def middleware_def)

text \<open>
  C7 (as amended). A request for a ticker that matches the pattern, when it is answered,
  gets 200 or an error status with an error body. A 200 is either the entry of the cache
  as it was stored, with \<open>cached: true\<close> and its age, or the result of a fresh scrape
  whose \<open>exDate\<close> is neither empty nor \<open>N/A\<close>; the route does not look at \<open>payDate\<close>,
  \<open>dividend\<close> and \<open>yield\<close>.
\<close>

theorem serve_dividend_replies:
  assumes "matches_ticker t"
  shows "fst (snd (serve_dividend body_ok over_limit uc ttl c now ss t)) = None \<or>
     (\<exists>d. cache_get c now (js ''dividend:'' @ toUpperCase uc t) = Some d \<and>
           fst (snd (serve_dividend body_ok over_limit uc ttl c now ss t))
             = Some (200, Found (d\<lparr>cached := Some True,
                                    cacheAge := Some ((now - scrapedAt (payload d)) div 1000)\<rparr>))) \<or>
     (\<exists>d. cache_get c now (js ''dividend:'' @ toUpperCase uc t) = None \<and>
           fst (snd (serve_dividend body_ok over_limit uc ttl c now ss t))
             = Some (200, Found \<lparr>ticker = toUpperCase uc t, payload = d, cached = Some False,
                                  cacheAge = None\<rparr>)
           \<and> exDate d \<noteq> [] \<and> exDate d \<noteq> js ''N/A'') \<or>
     (\<exists>st message. fst (snd (serve_dividend body_ok over_limit uc ttl c now ss t))
             = Some (st, Failure message) \<and> 400 \<le> st \<and> st < 600)"
proof -
  let ?r = "fst (snd (serve_dividend body_ok over_limit uc ttl c now ss t))"
  consider (route) "serve_dividend body_ok over_limit uc ttl c now ss t
        = get_dividend uc ttl c now ss t"
    | (parse) "?r = Some (500, Failure ''Something went wrong!'')"
    | (limit) "?r = Some (429, Failure ''Too many requests, please try again later.'')"
    using serve_dividend_cases [of body_ok over_limit uc ttl c now ss t] by blast
  then show ?thesis
  proof cases
    case route
    have e: "(\<exists>st message. ?r = Some (st, Failure message) \<and> 400 \<le> st \<and> st < 600)"
      if "?r = Some (404, Failure ''No dividend data found'') \<or>
          ?r = Some (408, Failure ''Request timeout'') \<or>
          ?r = Some (503, Failure ''Service unavailable'') \<or>
          ?r = Some (500, Failure ''Scraping failed'')"
      using that by auto
    from get_dividend_replies [OF assms, of uc ttl c now ss] e show ?thesis
      unfolding route by blast
  next
    case parse
    then show ?thesis by simp
  next
    case limit
    then show ?thesis by simp
  qed
qed

lemma extraction_doc_partial:
  "extraction doc_partial 5000
     = Some \<lparr>exDate = js ''2024-01-15'', payDate = [], dividend = [], yield = [],
             scrapedAt = 5000\<rparr>"
  by (simp add: extraction_def selectors_def doc_partial_def td_def extractText_def trim_def
      whitespace_def js_def)

lemma extraction_doc_empty:
  "extraction doc_empty 5000
     = Some \<lparr>exDate = [], payDate = [], dividend = [], yield = [], scrapedAt = 5000\<rparr>"
  by (simp add: extraction_def selectors_def doc_empty_def td_def extractText_def trim_def)

lemma cache_get_empty: "cache_get Map.empty now key = None"
  by (simp add: cache_get_def)

lemma scrape_partial:
  "scrapeDividendData session_partial (js ''KO'')
     = (Some (Inr (Some \<lparr>exDate = js ''2024-01-15'', payDate = [], dividend = [], yield = [],
                         scrapedAt = 5000\<rparr>)),
        [AcquireBrowser, NewPage 2, SetUserAgent, SetViewport,
         Goto (js ''https://stockevents.app/en/stock/KO/dividends''), WaitForTable, Evaluate,
         ReleaseBrowser 2])"
  by (simp add: scrapeDividendData_def scrape_page_def and_then_def session_partial_def
      session_ok_def goto_loop_0 extraction_doc_partial url_of_def js_def)

lemma scrape_empty:
  "scrapeDividendData session_empty (js ''KO'')
     = (Some (Inr (Some \<lparr>exDate = [], payDate = [], dividend = [], yield = [],
                         scrapedAt = 5000\<rparr>)),
        [AcquireBrowser, NewPage 2, SetUserAgent, SetViewport,
         Goto (js ''https://stockevents.app/en/stock/KO/dividends''), WaitForTable, Evaluate,
         ReleaseBrowser 2])"
  by (simp add: scrapeDividendData_def scrape_page_def and_then_def session_empty_def
      session_ok_def goto_loop_0 extraction_doc_empty url_of_def js_def)

lemma scrape_queued: "scrapeDividendData session_queued t = (None, [AcquireBrowser])"
  by (simp add: scrapeDividendData_def session_queued_def session_ok_def)

lemma batch_one_empty:
  "batch_one uc Map.empty 0 (js ''ko'', session_empty)
     = Some (js ''KO'',
        Found \<lparr>ticker = js ''KO'',
          payload = \<lparr>exDate = [], payDate = [], dividend = [], yield = [], scrapedAt = 5000\<rparr>,
          cached = None, cacheAge = None\<rparr>,
        Some (js ''dividend:KO'',
          \<lparr>ticker = js ''KO'',
            payload = \<lparr>exDate = [], payDate = [], dividend = [], yield = [], scrapedAt = 5000\<rparr>,
            cached = None, cacheAge = None\<rparr>, 6000),
        [CacheGet (js ''dividend:KO''), Scrape (js ''KO''), AcquireBrowser, NewPage 2,
         SetUserAgent, SetViewport, Goto (js ''https://stockevents.app/en/stock/KO/dividends''),
         WaitForTable, Evaluate, ReleaseBrowser 2, CacheSet (js ''dividend:KO'')])"
  by (simp add: batch_one_def Let_def upper_ko key_ko cache_get_empty scrape_empty)
    (simp add: session_empty_def session_ok_def)

lemma post_batch_empty:
  "fst (post_batch uc 60 Map.empty 0 (Some [(js ''ko'', session_empty)]))
     = cache_set 60 Map.empty 6000 (js ''dividend:KO'')
         \<lparr>ticker = js ''KO'',
           payload = \<lparr>exDate = [], payDate = [], dividend = [], yield = [], scrapedAt = 5000\<rparr>,
           cached = None, cacheAge = None\<rparr>"
  by (simp add: post_batch_def Let_def batch_one_empty)

text \<open>
  C7 as stated fails. A row with a date in its first cell and three empty cells is
  answered with 200 and three empty fields. The batch route stores a row of four empty
  cells, and the single route then answers 200 with that entry, four empty fields. A
  request whose \<open>getBrowser\<close> is never answered gets no reply at all.
\<close>

theorem serve_dividend_counterexample:
  "matches_ticker (js ''ko'') \<and>
   fst (snd (serve_dividend True False uc_excerpt 60 Map.empty 0 session_partial (js ''ko'')))
     = Some (200, Found \<lparr>ticker = js ''KO'',
          payload = \<lparr>exDate = js ''2024-01-15'', payDate = [], dividend = [], yield = [],
                     scrapedAt = 5000\<rparr>,
          cached = Some False, cacheAge = None\<rparr>) \<and>
   fst (snd (serve_dividend True False uc_excerpt 60
       (fst (post_batch uc_excerpt 60 Map.empty 0 (Some [(js ''ko'', session_empty)])))
       7000 session_ok (js ''ko'')))
     = Some (200, Found \<lparr>ticker = js ''KO'',
          payload = \<lparr>exDate = [], payDate = [], dividend = [], yield = [], scrapedAt = 5000\<rparr>,
          cached = Some True, cacheAge = Some 2\<rparr>) \<and>
   fst (snd (serve_dividend True False uc_excerpt 60 Map.empty 0 session_queued (js ''ko'')))
     = None"
proof -
  have 1: "fst (snd (serve_dividend True False uc_excerpt 60 Map.empty 0 session_partial (js ''ko'')))
     = Some (200, Found \<lparr>ticker = js ''KO'',
          payload = \<lparr>exDate = js ''2024-01-15'', payDate = [], dividend = [], yield = [],
                     scrapedAt = 5000\<rparr>,
          cached = Some False, cacheAge = None\<rparr>)"
    by (simp add: serve_dividend_route get_dividend_def Let_def validate_matches matches_ko
        upper_ko cache_get_empty scrape_partial) (simp add: js_def)
  have 2: "fst (snd (serve_dividend True False uc_excerpt 60
       (fst (post_batch uc_excerpt 60 Map.empty 0 (Some [(js ''ko'', session_empty)])))
       7000 session_ok (js ''ko'')))
     = Some (200, Found \<lparr>ticker = js ''KO'',
          payload = \<lparr>exDate = [], payDate = [], dividend = [], yield = [], scrapedAt = 5000\<rparr>,
          cached = Some True, cacheAge = Some 2\<rparr>)"
    by (simp add: serve_dividend_route post_batch_empty get_dividend_def Let_def validate_matches
        matches_ko upper_ko key_ko cache_get_def cache_set_def)
  have 3: "fst (snd (serve_dividend True False uc_excerpt 60 Map.empty 0 session_queued (js ''ko'')))
     = None"
    by (simp add: serve_dividend_route get_dividend_def Let_def validate_matches matches_ko
        upper_ko cache_get_empty scrape_queued)
  from matches_ko 1 2 3 show ?thesis by (intro conjI)
qed

text \<open>
  The ticker \<open>ko\<close> on the page with a full row, and the same request from a client that
  is over its limit.
\<close>

theorem serve_dividend_replies_witness:
  "matches_ticker (js ''ko'') \<and>
   fst (snd (serve_dividend True False uc_excerpt 60 Map.empty 0 session_ok (js ''ko'')))
     = Some (200, Found response_ko) \<and>
   exDate (payload response_ko) \<noteq> [] \<and>
   fst (snd (serve_dividend True True uc_excerpt 60 Map.empty 0 session_ok (js ''ko'')))
     = Some (429, Failure ''Too many requests, please try again later.'')"
proof -
  have r: "fst (snd (serve_dividend True False uc_excerpt 60 Map.empty 0 session_ok (js ''ko'')))
      = Some (200, Found response_ko)"
    by (simp add: serve_dividend_route get_dividend_def Let_def validate_matches matches_ko
        upper_ko cache_get_empty scrape_ok) (simp add: data_ko_def response_ko_def js_def)
  have l: "fst (snd (serve_dividend True True uc_excerpt 60 Map.empty 0 session_ok (js ''ko'')))
      = Some (429, Failure ''Too many requests, please try again later.'')"
    by (simp add: serve_dividend_def middleware_def)
  have e: "exDate (payload response_ko) \<noteq> []"
    by (simp add: response_ko_def data_ko_def js_def)
  note inst = serve_dividend_replies [OF matches_ko, of True False uc_excerpt 60 Map.empty 0 session_ok]
  from inst r have "exDate (payload response_ko) \<noteq> []"
    by (auto simp: response_ko_def upper_ko cache_get_empty)
  with matches_ko r l show ?thesis by (intro conjI)
qed

lemma cache_fresh: "now' < now + ttl * 1000 \<Longrightarrow> cache_get (cache_set ttl c now key r) now' key = Some r"
  by (simp add: cache_get_def cache_set_def)

lemma cache_expired: "now + ttl * 1000 \<le> now' \<Longrightarrow> cache_get (cache_set ttl c now key r) now' key = None"
  by (simp add: cache_get_def cache_set_def)

lemma cache_overwrite: "cache_set ttl (cache_set ttl c now0 key r0) now key r = cache_set ttl c now key r"
  by (simp add: cache_set_def)

text \<open>
  C6. A result stored under a key is read back as it is until its time to live has
  elapsed, and is absent from then on; a second store under the key replaces the first;
  the time to live is 60 seconds when \<open>CACHE_TTL\<close> is not set. The route stores a
  successful fetch under \<open>dividend:\<close> and the upper-cased ticker; while the entry lives,
  a request for the ticker (in any case of letters) is answered from it without a scrape;
  when the lookup finds nothing, the route scrapes again.
\<close>

theorem cache_round_trip:
  "(now' < now + ttl * 1000 \<longrightarrow> cache_get (cache_set ttl c now key r) now' key = Some r) \<and>
   (now + ttl * 1000 \<le> now' \<longrightarrow> cache_get (cache_set ttl c now key r) now' key = None) \<and>
   cache_set ttl (cache_set ttl c now0 key r0) now key r = cache_set ttl c now key r \<and>
   config_ttl None = 60 \<and>
   (\<forall>d tr. matches_ticker t \<and> cache_get c now (js ''dividend:'' @ toUpperCase uc t) = None \<and>
      scrapeDividendData ss (toUpperCase uc t) = (Some (Inr (Some d)), tr) \<and>
      exDate d \<noteq> [] \<and> exDate d \<noteq> js ''N/A'' \<longrightarrow>
      fst (get_dividend uc ttl c now ss t)
        = cache_set ttl c (settled_at ss) (js ''dividend:'' @ toUpperCase uc t)
            \<lparr>ticker = toUpperCase uc t, payload = d, cached = Some False, cacheAge = None\<rparr>) \<and>
   (\<forall>d. matches_ticker t \<and> cache_get c now (js ''dividend:'' @ toUpperCase uc t) = Some d \<longrightarrow>
      get_dividend uc ttl c now ss t
        = (c, Some (200, Found (d\<lparr>cached := Some True,
                                 cacheAge := Some ((now - scrapedAt (payload d)) div 1000)\<rparr>)),
           [CacheGet (js ''dividend:'' @ toUpperCase uc t)])) \<and>
   (matches_ticker t \<and> cache_get c now (js ''dividend:'' @ toUpperCase uc t) = None \<longrightarrow>
      take 2 (snd (snd (get_dividend uc ttl c now ss t)))
        = [CacheGet (js ''dividend:'' @ toUpperCase uc t), Scrape (toUpperCase uc t)])"
proof -
  have c1: "now' < now + ttl * 1000 \<longrightarrow> cache_get (cache_set ttl c now key r) now' key = Some r"
    using cache_fresh [of now' now ttl c key r] by blast
  have c2: "now + ttl * 1000 \<le> now' \<longrightarrow> cache_get (cache_set ttl c now key r) now' key = None"
    using cache_expired [of now ttl now' c key r] by blast
  have c3: "cache_set ttl (cache_set ttl c now0 key r0) now key r = cache_set ttl c now key r"
    by (rule cache_overwrite)
  have c4: "config_ttl None = 60"
    by (simp add: config_ttl_def)
  have c5: "\<forall>d tr. matches_ticker t \<and> cache_get c now (js ''dividend:'' @ toUpperCase uc t) = None \<and>
      scrapeDividendData ss (toUpperCase uc t) = (Some (Inr (Some d)), tr) \<and>
      exDate d \<noteq> [] \<and> exDate d \<noteq> js ''N/A'' \<longrightarrow>
      fst (get_dividend uc ttl c now ss t)
        = cache_set ttl c (settled_at ss) (js ''dividend:'' @ toUpperCase uc t)
            \<lparr>ticker = toUpperCase uc t, payload = d, cached = Some False, cacheAge = None\<rparr>"
    using get_dividend_fresh [OF validate_matches, of t c now uc ss _ _ ttl]
    by simp
  have c6: "\<forall>d. matches_ticker t \<and> cache_get c now (js ''dividend:'' @ toUpperCase uc t) = Some d \<longrightarrow>
      get_dividend uc ttl c now ss t
        = (c, Some (200, Found (d\<lparr>cached := Some True,
                                 cacheAge := Some ((now - scrapedAt (payload d)) div 1000)\<rparr>)),
           [CacheGet (js ''dividend:'' @ toUpperCase uc t)])"
    using get_dividend_hit [OF validate_matches, of t c now uc _ ttl ss]
    by simp
  have c7: "matches_ticker t \<and> cache_get c now (js ''dividend:'' @ toUpperCase uc t) = None \<longrightarrow>
      take 2 (snd (snd (get_dividend uc ttl c now ss t)))
        = [CacheGet (js ''dividend:'' @ toUpperCase uc t), Scrape (toUpperCase uc t)]"
    using get_dividend_miss [OF validate_matches, of t c now uc ttl ss]
    by simp
  from c1 c2 c3 c4 c5 c6 c7 show ?thesis
    by (intro conjI)
qed

lemma upper_Ko: "toUpperCase uc (js ''Ko'') = js ''KO''"
  by (simp add: toUpperCase_def upper_point_def js_def)

lemma matches_Ko: "matches_ticker (js ''Ko'')"
  by (simp add: matches_ticker_def ticker_char_def js_def)

text \<open>
  \<open>ko\<close> is fetched and stored at 6 s with 60 s to live: \<open>Ko\<close> is answered from the
  cache at 65.999 s and scraped again at 66 s.
\<close>

theorem cache_round_trip_witness:
  "fst (get_dividend uc_excerpt 60 Map.empty 0 session_ok (js ''ko''))
     = cache_set 60 Map.empty 6000 (js ''dividend:KO'') response_ko \<and>
   cache_get (cache_set 60 Map.empty 6000 (js ''dividend:KO'') response_ko) 65999
       (js ''dividend:KO'')
     = Some response_ko \<and>
   cache_get (cache_set 60 Map.empty 6000 (js ''dividend:KO'') response_ko) 66000
       (js ''dividend:KO'') = None \<and>
   get_dividend uc_excerpt 60 (cache_set 60 Map.empty 6000 (js ''dividend:KO'') response_ko)
       65999 session_ok (js ''Ko'')
     = (cache_set 60 Map.empty 6000 (js ''dividend:KO'') response_ko,
        Some (200, Found (response_ko\<lparr>cached := Some True, cacheAge := Some 60\<rparr>)),
        [CacheGet (js ''dividend:KO'')]) \<and>
   take 2 (snd (snd (get_dividend uc_excerpt 60
       (cache_set 60 Map.empty 6000 (js ''dividend:KO'') response_ko) 66000 session_ok
       (js ''Ko''))))
     = [CacheGet (js ''dividend:KO''), Scrape (js ''KO'')]"
proof -
  let ?c = "cache_set 60 Map.empty 6000 (js ''dividend:KO'') response_ko"
  have a: "(65999::int) < 6000 + 60 * 1000" and b: "(6000::int) + 60 * 1000 \<le> 66000"
    by simp_all
  note store = cache_round_trip [where now' = 65999 and now = 6000 and ttl = 60
      and c = Map.empty and key = "js ''dividend:KO''" and r = response_ko]
  note expire = cache_round_trip [where now' = 66000 and now = 6000 and ttl = 60
      and c = Map.empty and key = "js ''dividend:KO''" and r = response_ko]
  have hit: "cache_get ?c 65999 (js ''dividend:KO'') = Some response_ko"
    using a store [THEN conjunct1] by simp
  have miss: "cache_get ?c 66000 (js ''dividend:KO'') = None"
    using b expire [THEN conjunct2, THEN conjunct1] by simp
  have fresh: "matches_ticker (js ''ko'') \<and>
      cache_get Map.empty 0 (js ''dividend:'' @ toUpperCase uc_excerpt (js ''ko'')) = None \<and>
      scrapeDividendData session_ok (toUpperCase uc_excerpt (js ''ko''))
        = (Some (Inr (Some data_ko)),
           [AcquireBrowser, NewPage 2, SetUserAgent, SetViewport,
            Goto (js ''https://stockevents.app/en/stock/KO/dividends''), WaitForTable, Evaluate,
            ReleaseBrowser 2]) \<and>
      exDate data_ko \<noteq> [] \<and> exDate data_ko \<noteq> js ''N/A''"
    by (simp add: matches_ko cache_get_empty upper_ko scrape_ok) (simp add: data_ko_def js_def)
  note first = cache_round_trip [where ttl = 60 and c = Map.empty and now = 0
      and t = "js ''ko''" and ss = session_ok and uc = uc_excerpt,
      THEN conjunct2, THEN conjunct2, THEN conjunct2, THEN conjunct2, THEN conjunct1,
      rule_format, OF fresh]
  have 1: "fst (get_dividend uc_excerpt 60 Map.empty 0 session_ok (js ''ko'')) = ?c"
    using first by (simp add: upper_ko key_ko response_ko_def session_ok_def)
  note second = cache_round_trip [where ttl = 60 and c = ?c and now = 65999
      and t = "js ''Ko''" and ss = session_ok and uc = uc_excerpt,
      THEN conjunct2, THEN conjunct2, THEN conjunct2, THEN conjunct2, THEN conjunct2,
      THEN conjunct1, rule_format, of response_ko]
  have 2: "get_dividend uc_excerpt 60 ?c 65999 session_ok (js ''Ko'')
     = (?c, Some (200, Found (response_ko\<lparr>cached := Some True, cacheAge := Some 60\<rparr>)),
        [CacheGet (js ''dividend:KO'')])"
    using hit matches_Ko second
    by (simp add: upper_Ko key_ko) (simp add: response_ko_def data_ko_def)
  note third = cache_round_trip [where ttl = 60 and c = ?c and now = 66000
      and t = "js ''Ko''" and ss = session_ok and uc = uc_excerpt,
      THEN conjunct2, THEN conjunct2, THEN conjunct2, THEN conjunct2, THEN conjunct2,
      THEN conjunct2]
  have 3: "take 2 (snd (snd (get_dividend uc_excerpt 60 ?c 66000 session_ok (js ''Ko''))))
     = [CacheGet (js ''dividend:KO''), Scrape (js ''KO'')]"
    using miss matches_Ko third
    by (simp add: upper_Ko key_ko)
  from 1 hit miss 2 3 show ?thesis
    by (intro conjI)
qed

section \<open>POST /dividends/batch\<close>

lemma batch_results_lookup:
  "\<forall>out \<in> set outs. fst out = k \<longrightarrow> fst (snd out) = v \<Longrightarrow>
   batch_results outs m k = (if \<exists>out \<in> set outs. fst out = k then Some v else m k)"
proof (induction outs arbitrary: m)
  case Nil
  then show ?case by simp
next
  case (Cons out outs)
  obtain k' v' w tr where out: "out = (k', v', w, tr)"
    by (cases out)
  from Cons.prems have rest: "\<forall>out \<in> set outs. fst out = k \<longrightarrow> fst (snd out) = v"
    by simp
  show ?case
  proof (cases "k' = k")
    case True
    with Cons.prems out have "v' = v" by simp
    with True out have "batch_results (out # outs) m k = batch_results outs (m(k \<mapsto> v)) k"
      by simp
    also have "\<dots> = Some v"
      by (simp only: Cons.IH [OF rest, of "m(k \<mapsto> v)"] fun_upd_same if_cancel)
    finally show ?thesis
      using True out by simp
  next
    case False
    then have other: "(m(k' \<mapsto> v')) k = m k"
      by simp
    have "batch_results (out # outs) m k = batch_results outs (m(k' \<mapsto> v')) k"
      using out by simp
    also have "\<dots> = (if \<exists>out \<in> set outs. fst out = k then Some v else m k)"
      by (simp only: Cons.IH [OF rest, of "m(k' \<mapsto> v')"] other)
    also have "(\<exists>out \<in> set outs. fst out = k) = (\<exists>x \<in> set (out # outs). fst x = k)"
      using False out by simp
    finally show ?thesis .
  qed
qed

lemma batch_one_key:
  "batch_one uc c now (t, ss) = Some (k, v, w, tr) \<Longrightarrow>
   k = toUpperCase uc t \<and> take 1 tr = [CacheGet (js ''dividend:'' @ toUpperCase uc t)] \<and>
   (cache_get c now (js ''dividend:'' @ toUpperCase uc t) = None \<longrightarrow>
      take 2 tr = [CacheGet (js ''dividend:'' @ toUpperCase uc t), Scrape (toUpperCase uc t)])"
  by (auto simp: batch_one_def Let_def split: option.splits prod.splits sum.splits)

lemma batch_one_hit:
  "cache_get c now (js ''dividend:'' @ toUpperCase uc t) = Some d \<Longrightarrow>
   batch_one uc c now (t, ss)
     = Some (toUpperCase uc t, Found d, None, [CacheGet (js ''dividend:'' @ toUpperCase uc t)])"
  by (simp add: batch_one_def Let_def)

lemma batch_one_failure:
  "cache_get c now (js ''dividend:'' @ toUpperCase uc t) = None \<Longrightarrow>
   scrapeDividendData ss (toUpperCase uc t) = (Some (Inl e), tr) \<Longrightarrow>
   batch_one uc c now (t, ss)
     = Some (toUpperCase uc t, Failure e, None,
             CacheGet (js ''dividend:'' @ toUpperCase uc t) # Scrape (toUpperCase uc t) # tr)"
  by (simp add: batch_one_def Let_def)

lemma batch_one_pending:
  "batch_one uc c now (t, ss) = None \<longleftrightarrow>
   cache_get c now (js ''dividend:'' @ toUpperCase uc t) = None \<and>
   fst (scrapeDividendData ss (toUpperCase uc t)) = None"
  by (auto simp: batch_one_def Let_def split: option.splits prod.splits sum.splits)

lemma post_batch_settled:
  assumes "1 \<le> length reqs" "length reqs \<le> 10"
    and "\<forall>req \<in> set reqs. batch_one uc c now req \<noteq> None"
  shows "fst (snd (post_batch uc ttl c now (Some reqs)))
     = Some (Results 200
         (batch_results (map (\<lambda>req. the (batch_one uc c now req)) reqs) Map.empty))"
proof -
  from assms(3) have "None \<notin> set (map (batch_one uc c now) reqs)"
    by force
  with assms(1,2) show ?thesis
    by (auto simp: post_batch_def Let_def)
qed

lemma post_batch_unsettled:
  assumes "1 \<le> length reqs" "length reqs \<le> 10" "req \<in> set reqs"
    and "batch_one uc c now req = None"
  shows "fst (snd (post_batch uc ttl c now (Some reqs))) = None"
proof -
  from assms(3,4) have "None \<in> set (map (batch_one uc c now) reqs)"
    by force
  with assms(1,2) show ?thesis
    by (auto simp: post_batch_def)
qed

lemma post_batch_status:
  assumes "1 \<le> length reqs" "length reqs \<le> 10"
  shows "batch_status (fst (snd (post_batch uc ttl c now (Some reqs))))
      = (if \<forall>req \<in> set reqs. batch_one uc c now req \<noteq> None then Some 200 else None)"
proof (cases "\<forall>req \<in> set reqs. batch_one uc c now req \<noteq> None")
  case True
  with post_batch_settled [OF assms, of uc c now ttl] show ?thesis by simp
next
  case False
  then obtain req where "req \<in> set reqs" "batch_one uc c now req = None" by blast
  with post_batch_unsettled [OF assms, of req uc c now ttl] False show ?thesis by simp
qed

lemma post_batch_entry:
  assumes len: "1 \<le> length reqs" "length reqs \<le> 10"
    and settled: "\<forall>req \<in> set reqs. batch_one uc c now req \<noteq> None"
    and mem: "(t, ss) \<in> set reqs"
    and alone: "\<forall>req' \<in> set reqs. toUpperCase uc (fst req') = toUpperCase uc t \<longrightarrow> req' = (t, ss)"
  shows "\<exists>v w tr. batch_one uc c now (t, ss) = Some (toUpperCase uc t, v, w, tr) \<and>
           batch_entry (fst (snd (post_batch uc ttl c now (Some reqs)))) (toUpperCase uc t) = Some v"
proof -
  let ?outs = "map (\<lambda>req. the (batch_one uc c now req)) reqs"
  from settled mem obtain k v w tr where one: "batch_one uc c now (t, ss) = Some (k, v, w, tr)"
    by (metis not_None_eq prod_cases4)
  then have k: "k = toUpperCase uc t"
    using batch_one_key by blast
  have same: "\<forall>out \<in> set ?outs. fst out = toUpperCase uc t \<longrightarrow> fst (snd out) = v"
  proof
    fix out assume "out \<in> set ?outs"
    then obtain req where req: "req \<in> set reqs" "out = the (batch_one uc c now req)"
      by auto
    obtain t' ss' where r': "req = (t', ss')" by (cases req)
    from settled req(1) obtain k' v' w' tr'
      where o': "batch_one uc c now req = Some (k', v', w', tr')"
      by (metis not_None_eq prod_cases4)
    with r' have k': "k' = toUpperCase uc t'"
      using batch_one_key by blast
    show "fst out = toUpperCase uc t \<longrightarrow> fst (snd out) = v"
    proof
      assume "fst out = toUpperCase uc t"
      with req(2) o' k' have "toUpperCase uc t' = toUpperCase uc t" by simp
      with alone req(1) r' have "req = (t, ss)" by auto
      with one o' req(2) show "fst (snd out) = v" by simp
    qed
  qed
  have ex: "\<exists>out \<in> set ?outs. fst out = toUpperCase uc t"
    using mem one k by (auto simp: image_iff intro!: bexI [of _ "(t, ss)"])
  from batch_results_lookup [OF same, of Map.empty] ex
  have "batch_results ?outs Map.empty (toUpperCase uc t) = Some v"
    by simp
  with post_batch_settled [OF len settled, of ttl] one k show ?thesis
    by simp
qed

lemma serve_batch_route:
  "serve_batch True False uc ttl c now tickers = post_batch uc ttl c now tickers"
  by (simp add: serve_batch_def middleware_def)

lemma serve_batch_cases:
  "serve_batch body_ok over_limit uc ttl c now tickers = post_batch uc ttl c now tickers \<or>
   fst (snd (serve_batch body_ok over_limit uc ttl c now tickers))
     = Some (Refused 500 ''Something went wrong!'') \<or>
   fst (snd (serve_batch body_ok over_limit uc ttl c now tickers))
     = Some (Refused 429 ''Too many requests, please try again later.'')"
  by (simp add: serve_batch_def middleware_def)

text \<open>
  C10 (as amended). For an array of 1 to 10 tickers the batch route never answers 400;
  a request that reaches the route is answered, with 200, when and only when every
  callback has returned. No ticker is tested against the pattern: each one is upper-cased
  and looked up in the cache under \<open>dividend:\<close> and its upper-cased form; when the lookup
  finds an entry, that entry is the result and the scraper is not called; when it finds
  nothing, the ticker is handed upper-cased to the scraper, and a scrape that throws gives
  the entry \<open>{error}\<close> of that key. When every callback returns, the entry under an
  upper-cased form that no other ticker of the batch shares is the outcome of the callback
  of its own ticker, whatever happens to the others.
\<close>

theorem post_batch_no_validation:
  assumes "1 \<le> length reqs" and "length reqs \<le> 10"
  shows "batch_status (fst (snd (serve_batch body_ok over_limit uc ttl c now (Some reqs))))
       \<noteq> Some 400 \<and>
   (batch_status (fst (snd (serve_batch True False uc ttl c now (Some reqs)))) = Some 200
      \<longleftrightarrow> (\<forall>req \<in> set reqs. batch_one uc c now req \<noteq> None)) \<and>
   (fst (snd (serve_batch True False uc ttl c now (Some reqs))) = None
      \<longleftrightarrow> (\<exists>req \<in> set reqs. batch_one uc c now req = None)) \<and>
   (\<forall>t ss. batch_one uc c now (t, ss) = None \<longleftrightarrow>
      cache_get c now (js ''dividend:'' @ toUpperCase uc t) = None \<and>
      fst (scrapeDividendData ss (toUpperCase uc t)) = None) \<and>
   (\<forall>t ss k v w tr. batch_one uc c now (t, ss) = Some (k, v, w, tr) \<longrightarrow>
      k = toUpperCase uc t \<and> take 1 tr = [CacheGet (js ''dividend:'' @ toUpperCase uc t)] \<and>
      (cache_get c now (js ''dividend:'' @ toUpperCase uc t) = None \<longrightarrow>
         take 2 tr = [CacheGet (js ''dividend:'' @ toUpperCase uc t), Scrape (toUpperCase uc t)])) \<and>
   (\<forall>t ss d. cache_get c now (js ''dividend:'' @ toUpperCase uc t) = Some d \<longrightarrow>
      batch_one uc c now (t, ss)
        = Some (toUpperCase uc t, Found d, None,
                [CacheGet (js ''dividend:'' @ toUpperCase uc t)])) \<and>
   (\<forall>t ss e tr. cache_get c now (js ''dividend:'' @ toUpperCase uc t) = None \<and>
      scrapeDividendData ss (toUpperCase uc t) = (Some (Inl e), tr) \<longrightarrow>
      batch_one uc c now (t, ss)
        = Some (toUpperCase uc t, Failure e, None,
                CacheGet (js ''dividend:'' @ toUpperCase uc t) # Scrape (toUpperCase uc t) # tr)) \<and>
   (\<forall>t ss. (\<forall>req \<in> set reqs. batch_one uc c now req \<noteq> None) \<and> (t, ss) \<in> set reqs \<and>
      (\<forall>req' \<in> set reqs. toUpperCase uc (fst req') = toUpperCase uc t \<longrightarrow> req' = (t, ss)) \<longrightarrow>
      (\<exists>v w tr. batch_one uc c now (t, ss) = Some (toUpperCase uc t, v, w, tr) \<and>
         batch_entry (fst (snd (serve_batch True False uc ttl c now (Some reqs))))
           (toUpperCase uc t) = Some v))"
proof -
  note status = post_batch_status [OF assms, of uc ttl c now]
  have c1: "batch_status (fst (snd (serve_batch body_ok over_limit uc ttl c now (Some reqs))))
       \<noteq> Some 400"
    using serve_batch_cases [of body_ok over_limit uc ttl c now "Some reqs"] status
    by (auto split: if_splits)
  have c2: "batch_status (fst (snd (serve_batch True False uc ttl c now (Some reqs)))) = Some 200
      \<longleftrightarrow> (\<forall>req \<in> set reqs. batch_one uc c now req \<noteq> None)"
    by (simp add: serve_batch_route status)
  have c3: "fst (snd (serve_batch True False uc ttl c now (Some reqs))) = None
      \<longleftrightarrow> (\<exists>req \<in> set reqs. batch_one uc c now req = None)"
  proof (cases "\<forall>req \<in> set reqs. batch_one uc c now req \<noteq> None")
    case True
    with post_batch_settled [OF assms, of uc c now ttl] show ?thesis
      by (simp add: serve_batch_route)
  next
    case False
    then obtain req where "req \<in> set reqs" "batch_one uc c now req = None" by blast
    with post_batch_unsettled [OF assms, of req uc c now ttl] show ?thesis
      by (auto simp: serve_batch_route)
  qed
  have c4: "\<forall>t ss. batch_one uc c now (t, ss) = None \<longleftrightarrow>
      cache_get c now (js ''dividend:'' @ toUpperCase uc t) = None \<and>
      fst (scrapeDividendData ss (toUpperCase uc t)) = None"
    using batch_one_pending [of uc c now] by blast
  have c5: "\<forall>t ss k v w tr. batch_one uc c now (t, ss) = Some (k, v, w, tr) \<longrightarrow>
      k = toUpperCase uc t \<and> take 1 tr = [CacheGet (js ''dividend:'' @ toUpperCase uc t)] \<and>
      (cache_get c now (js ''dividend:'' @ toUpperCase uc t) = None \<longrightarrow>
         take 2 tr = [CacheGet (js ''dividend:'' @ toUpperCase uc t), Scrape (toUpperCase uc t)])"
    using batch_one_key [of uc c now] by blast
  have c6: "\<forall>t ss d. cache_get c now (js ''dividend:'' @ toUpperCase uc t) = Some d \<longrightarrow>
      batch_one uc c now (t, ss)
        = Some (toUpperCase uc t, Found d, None,
                [CacheGet (js ''dividend:'' @ toUpperCase uc t)])"
    using batch_one_hit [of c now uc] by blast
  have c7: "\<forall>t ss e tr. cache_get c now (js ''dividend:'' @ toUpperCase uc t) = None \<and>
      scrapeDividendData ss (toUpperCase uc t) = (Some (Inl e), tr) \<longrightarrow>
      batch_one uc c now (t, ss)
        = Some (toUpperCase uc t, Failure e, None,
                CacheGet (js ''dividend:'' @ toUpperCase uc t) # Scrape (toUpperCase uc t) # tr)"
    using batch_one_failure [of c now uc] by blast
  have c8: "\<forall>t ss. (\<forall>req \<in> set reqs. batch_one uc c now req \<noteq> None) \<and> (t, ss) \<in> set reqs \<and>
      (\<forall>req' \<in> set reqs. toUpperCase uc (fst req') = toUpperCase uc t \<longrightarrow> req' = (t, ss)) \<longrightarrow>
      (\<exists>v w tr. batch_one uc c now (t, ss) = Some (toUpperCase uc t, v, w, tr) \<and>
         batch_entry (fst (snd (serve_batch True False uc ttl c now (Some reqs))))
           (toUpperCase uc t) = Some v)"
    unfolding serve_batch_route
    using post_batch_entry [OF assms, of uc c now _ _ ttl] by blast
  from c1 c2 c3 c4 c5 c6 c7 c8 show ?thesis
    by (intro conjI)
qed

lemma scrape_ok_any:
  "scrapeDividendData session_ok t
     = (Some (Inr (Some data_ko)),
        [AcquireBrowser, NewPage 2, SetUserAgent, SetViewport, Goto (url_of t), WaitForTable,
         Evaluate, ReleaseBrowser 2])"
  by (simp add: scrapeDividendData_def scrape_page_def and_then_def session_ok_def goto_loop_0
      extraction_doc_ko)

lemma scrape_on_any:
  "scrapeDividendData (session_on b) t
     = (Some (Inr (Some data_ko)),
        [AcquireBrowser, NewPage b, SetUserAgent, SetViewport, Goto (url_of t), WaitForTable,
         Evaluate, ReleaseBrowser b])"
  by (simp add: scrapeDividendData_def scrape_page_def and_then_def session_on_def session_ok_def
      goto_loop_0 extraction_doc_ko)

lemma scrape_no_browser_any:
  "scrapeDividendData session_no_browser t
     = (Some (Inl ''Failed to launch the browser process''), [AcquireBrowser])"
  by (simp add: scrapeDividendData_def session_no_browser_def session_ok_def)

lemma scrape_unreachable_any:
  "scrapeDividendData session_unreachable t
     = (Some (Inl ''Navigation timeout of 30000 ms exceeded''),
        [AcquireBrowser, NewPage 2, SetUserAgent, SetViewport, Goto (url_of t), Sleep 1000,
         Goto (url_of t), Sleep 2000, Goto (url_of t), ReleaseBrowser 2])"
  by (simp add: scrapeDividendData_def scrape_page_def and_then_def session_unreachable_def
      session_ok_def goto_loop_0 goto_loop_1 goto_loop_2)

lemma upper_batch3:
  "toUpperCase uc (js ''aapl'') = js ''AAPL''"
  "toUpperCase uc (js ''INVALID$'') = js ''INVALID$''"
  "toUpperCase uc (js ''msft'') = js ''MSFT''"
  by (simp_all add: toUpperCase_def upper_point_def js_def)

lemma upper_batch4:
  "toUpperCase uc (js ''ibm'') = js ''IBM''"
  by (simp add: toUpperCase_def upper_point_def js_def)

lemma upper_sharp:
  "toUpperCase uc_excerpt (js ''ss'') = js ''SS''" "toUpperCase uc_excerpt [0xDF] = js ''SS''"
  by (simp_all add: toUpperCase_def upper_point_def uc_excerpt_def js_def)

lemma keys_batch3:
  "js ''AAPL'' \<noteq> js ''INVALID$''" "js ''AAPL'' \<noteq> js ''MSFT''" "js ''INVALID$'' \<noteq> js ''MSFT''"
  "js ''INVALID$'' \<noteq> js ''AAPL''" "js ''MSFT'' \<noteq> js ''AAPL''" "js ''MSFT'' \<noteq> js ''INVALID$''"
  by (simp_all add: js_def)

lemma invalid_ticker: "\<not> matches_ticker (js ''INVALID$'')"
  by (simp add: matches_ticker_def ticker_char_def js_def)

lemma batch_one_ok:
  "batch_one uc Map.empty 0 (t, session_ok)
     = Some (toUpperCase uc t,
         Found \<lparr>ticker = toUpperCase uc t, payload = data_ko, cached = None, cacheAge = None\<rparr>,
         Some (js ''dividend:'' @ toUpperCase uc t,
               \<lparr>ticker = toUpperCase uc t, payload = data_ko, cached = None, cacheAge = None\<rparr>,
               6000),
         [CacheGet (js ''dividend:'' @ toUpperCase uc t), Scrape (toUpperCase uc t),
          AcquireBrowser, NewPage 2, SetUserAgent, SetViewport, Goto (url_of (toUpperCase uc t)),
          WaitForTable, Evaluate, ReleaseBrowser 2,
          CacheSet (js ''dividend:'' @ toUpperCase uc t)])"
  by (simp add: batch_one_def Let_def cache_get_empty scrape_ok_any)
     (simp add: session_ok_def)

lemma batch_one_on:
  "batch_one uc Map.empty 0 (t, session_on b)
     = Some (toUpperCase uc t,
         Found \<lparr>ticker = toUpperCase uc t, payload = data_ko, cached = None, cacheAge = None\<rparr>,
         Some (js ''dividend:'' @ toUpperCase uc t,
               \<lparr>ticker = toUpperCase uc t, payload = data_ko, cached = None, cacheAge = None\<rparr>,
               6000),
         [CacheGet (js ''dividend:'' @ toUpperCase uc t), Scrape (toUpperCase uc t),
          AcquireBrowser, NewPage b, SetUserAgent, SetViewport, Goto (url_of (toUpperCase uc t)),
          WaitForTable, Evaluate, ReleaseBrowser b,
          CacheSet (js ''dividend:'' @ toUpperCase uc t)])"
  by (simp add: batch_one_def Let_def cache_get_empty scrape_on_any)
     (simp add: session_on_def session_ok_def)

lemma batch_one_unreachable:
  "batch_one uc Map.empty 0 (t, session_unreachable)
     = Some (toUpperCase uc t, Failure ''Navigation timeout of 30000 ms exceeded'', None,
         [CacheGet (js ''dividend:'' @ toUpperCase uc t), Scrape (toUpperCase uc t),
          AcquireBrowser, NewPage 2, SetUserAgent, SetViewport, Goto (url_of (toUpperCase uc t)),
          Sleep 1000, Goto (url_of (toUpperCase uc t)), Sleep 2000,
          Goto (url_of (toUpperCase uc t)), ReleaseBrowser 2])"
  by (simp add: batch_one_def Let_def cache_get_empty scrape_unreachable_any)

lemma batch_one_no_browser:
  "batch_one uc Map.empty 0 (t, session_no_browser)
     = Some (toUpperCase uc t, Failure ''Failed to launch the browser process'', None,
         [CacheGet (js ''dividend:'' @ toUpperCase uc t), Scrape (toUpperCase uc t),
          AcquireBrowser])"
  by (simp add: batch_one_def Let_def cache_get_empty scrape_no_browser_any)

lemma batch_one_queued: "batch_one uc Map.empty 0 (t, session_queued) = None"
  by (simp add: batch_one_def Let_def cache_get_empty scrape_queued)

lemma outs_sharp:
  "map (\<lambda>req. the (batch_one uc_excerpt Map.empty 0 req)) batch_sharp
     = [the (batch_one uc_excerpt Map.empty 0 (js ''ss'', session_ok)),
        the (batch_one uc_excerpt Map.empty 0 ([0xDF], session_unreachable))]"
  by (simp add: batch_sharp_def)

lemma failed_launches:
  "run [CallGet 0, CallGet 1, CallGet 2, CallGet 3, LaunchDone 0 False, LaunchDone 1 False,
        LaunchDone 2 False] (start 3)
     = \<lparr>the_pool = \<lparr>maxSize = 3, browsers = [], queue = [3], activeBrowsers = 0\<rparr>,
        cst = (\<lambda>c. Out)(0 := Launching, 1 := Launching, 2 := Launching, 3 := Waiting, 0 := Out,
                1 := Out, 2 := Out),
        fresh = 0\<rparr>"
  by (simp add: start_def BrowserPool_def step_get_def step_launched_def getBrowser_enter_def
      getBrowser_launched_def)

text \<open>
  C10 as stated fails. \<open>ss\<close> and the one letter U+00DF are two tickers with the
  upper-case form \<open>SS\<close>: alone, \<open>ss\<close> gets its data; next to the other one, whose site
  never answers, the entry \<open>SS\<close> is the error of the other. And with four tickers on a
  pool of three browsers, the fourth \<open>getBrowser\<close> is queued; when the three launches
  fail, no browser is ever released, the fourth caller stays in the queue and the batch is
  never answered, while with three launches that succeed the fourth ticker gets its data.
\<close>

theorem post_batch_counterexample:
  "batch_entry (fst (snd (serve_batch True False uc_excerpt 60 Map.empty 0
       (Some [(js ''ss'', session_ok)])))) (js ''SS'')
     = Some (Found \<lparr>ticker = js ''SS'', payload = data_ko, cached = None, cacheAge = None\<rparr>) \<and>
   batch_entry (fst (snd (serve_batch True False uc_excerpt 60 Map.empty 0 (Some batch_sharp))))
       (js ''SS'')
     = Some (Failure ''Navigation timeout of 30000 ms exceeded'') \<and>
   cst (run [CallGet 0, CallGet 1, CallGet 2, CallGet 3, LaunchDone 0 False,
             LaunchDone 1 False, LaunchDone 2 False] (start 3)) 3 = Waiting \<and>
   cst (run [CallGet 0, CallGet 1, CallGet 2, CallGet 3, LaunchDone 0 False,
             LaunchDone 1 False, LaunchDone 2 False] (start 3)) 0 = Out \<and>
   cst (run [CallGet 0, CallGet 1, CallGet 2, CallGet 3, LaunchDone 0 False,
             LaunchDone 1 False, LaunchDone 2 False] (start 3)) 1 = Out \<and>
   cst (run [CallGet 0, CallGet 1, CallGet 2, CallGet 3, LaunchDone 0 False,
             LaunchDone 1 False, LaunchDone 2 False] (start 3)) 2 = Out \<and>
   queue (the_pool (run [CallGet 0, CallGet 1, CallGet 2, CallGet 3, LaunchDone 0 False,
             LaunchDone 1 False, LaunchDone 2 False] (start 3))) = [3] \<and>
   fst (snd (serve_batch True False uc_excerpt 60 Map.empty 0 (Some batch4_failed))) = None \<and>
   batch_entry (fst (snd (serve_batch True False uc_excerpt 60 Map.empty 0
       (Some batch4_launched)))) (js ''IBM'')
     = Some (Found \<lparr>ticker = js ''IBM'', payload = data_ko, cached = None, cacheAge = None\<rparr>)"
proof -
  have 1: "batch_entry (fst (snd (serve_batch True False uc_excerpt 60 Map.empty 0
       (Some [(js ''ss'', session_ok)])))) (js ''SS'')
     = Some (Found \<lparr>ticker = js ''SS'', payload = data_ko, cached = None, cacheAge = None\<rparr>)"
    by (simp add: serve_batch_route post_batch_def Let_def batch_one_ok upper_sharp)
  have 2: "batch_entry (fst (snd (serve_batch True False uc_excerpt 60 Map.empty 0
       (Some batch_sharp)))) (js ''SS'')
     = Some (Failure ''Navigation timeout of 30000 ms exceeded'')"
    by (simp add: serve_batch_route post_batch_def Let_def batch_sharp_def batch_one_ok
        batch_one_unreachable upper_sharp)
  have 3: "fst (snd (serve_batch True False uc_excerpt 60 Map.empty 0 (Some batch4_failed)))
     = None"
    by (simp add: serve_batch_route post_batch_def Let_def batch4_failed_def batch_one_no_browser
        batch_one_queued)
  have 4: "batch_entry (fst (snd (serve_batch True False uc_excerpt 60 Map.empty 0
       (Some batch4_launched)))) (js ''IBM'')
     = Some (Found \<lparr>ticker = js ''IBM'', payload = data_ko, cached = None, cacheAge = None\<rparr>)"
    by (simp add: serve_batch_route post_batch_def Let_def batch4_launched_def batch_one_on
        upper_batch3 upper_batch4 upper_ko)
  show ?thesis
    unfolding failed_launches
    using 1 2 3 4 by simp
qed

text \<open>
  The batch \<open>aapl\<close>, \<open>INVALID$\<close>, \<open>msft\<close>: the malformed ticker gets an error entry,
  the other two their data, and the status is 200.
\<close>

theorem post_batch_no_validation_witness:
  "\<not> matches_ticker (js ''INVALID$'') \<and>
   batch_status (fst (snd (serve_batch True False uc_excerpt 60 Map.empty 0 (Some batch3))))
     = Some 200 \<and>
   batch_entry (fst (snd (serve_batch True False uc_excerpt 60 Map.empty 0 (Some batch3))))
       (js ''AAPL'')
     = Some (Found \<lparr>ticker = js ''AAPL'', payload = data_ko, cached = None, cacheAge = None\<rparr>) \<and>
   batch_entry (fst (snd (serve_batch True False uc_excerpt 60 Map.empty 0 (Some batch3))))
       (js ''INVALID$'')
     = Some (Failure ''Navigation timeout of 30000 ms exceeded'') \<and>
   batch_entry (fst (snd (serve_batch True False uc_excerpt 60 Map.empty 0 (Some batch3))))
       (js ''MSFT'')
     = Some (Found \<lparr>ticker = js ''MSFT'', payload = data_ko, cached = None, cacheAge = None\<rparr>)"
proof -
  have len: "1 \<le> length batch3" "length batch3 \<le> 10"
    by (simp_all add: batch3_def)
  have settled: "\<forall>req \<in> set batch3. batch_one uc_excerpt Map.empty 0 req \<noteq> None"
    by (simp add: batch3_def batch_one_ok batch_one_unreachable)
  have a: "(js ''aapl'', session_ok) \<in> set batch3 \<and>
      (\<forall>req' \<in> set batch3. toUpperCase uc_excerpt (fst req') = toUpperCase uc_excerpt (js ''aapl'')
         \<longrightarrow> req' = (js ''aapl'', session_ok))"
    by (simp add: batch3_def upper_batch3 keys_batch3)
  have i: "(js ''INVALID$'', session_unreachable) \<in> set batch3 \<and>
      (\<forall>req' \<in> set batch3.
         toUpperCase uc_excerpt (fst req') = toUpperCase uc_excerpt (js ''INVALID$'')
         \<longrightarrow> req' = (js ''INVALID$'', session_unreachable))"
    by (simp add: batch3_def upper_batch3 keys_batch3)
  have m: "(js ''msft'', session_ok) \<in> set batch3 \<and>
      (\<forall>req' \<in> set batch3. toUpperCase uc_excerpt (fst req') = toUpperCase uc_excerpt (js ''msft'')
         \<longrightarrow> req' = (js ''msft'', session_ok))"
    by (simp add: batch3_def upper_batch3 keys_batch3)
  note inst = post_batch_no_validation [OF len, of True False uc_excerpt 60 Map.empty 0]
  note status = inst [THEN conjunct2, THEN conjunct1]
  note alone = inst [THEN conjunct2, THEN conjunct2, THEN conjunct2, THEN conjunct2,
      THEN conjunct2, THEN conjunct2, THEN conjunct2, rule_format]
  have 1: "batch_status (fst (snd (serve_batch True False uc_excerpt 60 Map.empty 0 (Some batch3))))
      = Some 200"
    using settled status by blast
  have 2: "batch_entry (fst (snd (serve_batch True False uc_excerpt 60 Map.empty 0 (Some batch3))))
       (js ''AAPL'')
     = Some (Found \<lparr>ticker = js ''AAPL'', payload = data_ko, cached = None, cacheAge = None\<rparr>)"
    using alone [of "js ''aapl''" session_ok] settled a
    by (auto simp: batch_one_ok upper_batch3)
  have 3: "batch_entry (fst (snd (serve_batch True False uc_excerpt 60 Map.empty 0 (Some batch3))))
       (js ''INVALID$'')
     = Some (Failure ''Navigation timeout of 30000 ms exceeded'')"
    using alone [of "js ''INVALID$''" session_unreachable] settled i
    by (auto simp: batch_one_unreachable upper_batch3)
  have 4: "batch_entry (fst (snd (serve_batch True False uc_excerpt 60 Map.empty 0 (Some batch3))))
       (js ''MSFT'')
     = Some (Found \<lparr>ticker = js ''MSFT'', payload = data_ko, cached = None, cacheAge = None\<rparr>)"
    using alone [of "js ''msft''" session_ok] settled m
    by (auto simp: batch_one_ok upper_batch3)
  from invalid_ticker 1 2 3 4 show ?thesis by (intro conjI)
qed

section \<open>Shutdown\<close>

lemma step_lost:
  assumes "b < fresh s" and "b \<notin> set (browsers (the_pool s))" and "\<forall>c. cst s c \<noteq> Holding b"
  shows "b < fresh (step e s) \<and> b \<notin> set (browsers (the_pool (step e s))) \<and>
     (\<forall>c. cst (step e s) c \<noteq> Holding b)"
proof (cases e)
  case (CallGet c)
  have "last (browsers (the_pool s)) \<noteq> b" if "browsers (the_pool s) \<noteq> []"
    using that assms(2) last_in_set by metis
  with assms show ?thesis
    unfolding CallGet by (auto simp: step_defs dest: in_set_butlastD)
next
  case (LaunchDone c ok)
  with assms show ?thesis
    by (auto simp: step_defs)
next
  case (CallRelease c ok)
  with assms show ?thesis
    by (auto simp: step_defs split: cstate.splits)
next
  case (CloseDone c ok)
  with assms show ?thesis
    by (auto simp: step_defs split: cstate.splits)
next
  case CallCleanup
  with assms show ?thesis
    by (auto simp: step_defs)
qed

lemma inv_boot: "process_inv (boot m)"
  by (simp add: process_inv_def boot_def inv_start)

lemma inv_cleanup_ends:
  assumes "process_inv ps" and "set others \<subseteq> set (walks ps)"
  shows "process_inv (cleanup_ends flag others ps)"
proof -
  from assms(1) have p: "pool_inv (sys ps)"
    by (simp add: process_inv_def)
  have idle: "b < fresh (sys ps) \<and> (\<forall>c. cst (sys ps) c \<noteq> Holding b)"
    if "b \<in> set (browsers (the_pool (sys ps)))" for b
    using p that unfolding pool_inv_def by blast
  have old: "b < fresh (sys ps) \<and> (\<forall>c. cst (sys ps) c \<noteq> Holding b)"
    if "w \<in> set others" "orphan w = Some xs" "b \<in> set xs" for w xs b
    using assms that unfolding process_inv_def by blast
  have "b < fresh (sys ps) \<and> (\<forall>c. cst (sys ps) c \<noteq> Holding b)"
    if "w \<in> set others" "orphan (orphaned (browsers (the_pool (sys ps))) w) = Some xs" "b \<in> set xs"
    for w xs b
  proof (cases "orphan w")
    case None
    with that(2) have "xs = browsers (the_pool (sys ps))"
      by (simp add: orphaned_def)
    with that(3) idle show ?thesis by simp
  next
    case (Some ys)
    with that(2) have "orphan w = Some xs"
      by (simp add: orphaned_def)
    with that(1,3) old show ?thesis by blast
  qed
  with inv_cleanup [OF p] show ?thesis
    unfolding process_inv_def cleanup_ends_def
    by (auto simp: step_cleanup_def cleanup_reset_def)
qed

lemma inv_cleanup_begins: "process_inv ps \<Longrightarrow> process_inv (cleanup_begins flag ps)"
proof (cases "browsers (the_pool (sys ps))")
  case Nil
  assume "process_inv ps"
  from inv_cleanup_ends [OF this, of "walks ps" flag] Nil show ?thesis
    by (simp add: cleanup_begins_def)
next
  case (Cons b bs)
  assume "process_inv ps"
  with Cons show ?thesis
    by (auto simp: cleanup_begins_def process_inv_def)
qed

lemma inv_logged: "process_inv (ps\<lparr>trace := tr\<rparr>) = process_inv ps"
  by (simp add: process_inv_def)

lemma inv_walks:
  assumes "process_inv ps" and "sys qs = sys ps"
    and "\<forall>w' \<in> set (walks qs). \<exists>w \<in> set (walks ps). orphan w' = orphan w"
  shows "process_inv qs"
proof -
  have "b < fresh (sys qs) \<and> b \<notin> set (browsers (the_pool (sys qs))) \<and>
      (\<forall>c. cst (sys qs) c \<noteq> Holding b)"
    if "w' \<in> set (walks qs)" "orphan w' = Some xs" "b \<in> set xs" for w' xs b
  proof -
    from assms(3) that(1,2) obtain w where "w \<in> set (walks ps)" "orphan w = Some xs"
      by metis
    with assms(1) that(3)
    have "b < fresh (sys ps) \<and> b \<notin> set (browsers (the_pool (sys ps))) \<and>
        (\<forall>c. cst (sys ps) c \<noteq> Holding b)"
      unfolding process_inv_def by blast
    then show ?thesis
      by (simp add: assms(2))
  qed
  moreover have "pool_inv (sys qs)"
    using assms(1,2) by (simp add: process_inv_def)
  ultimately show ?thesis
    unfolding process_inv_def by blast
qed

lemma inv_close_ends:
  assumes "process_inv ps"
  shows "process_inv (close_ends n r ps)"
proof (cases "n < length (walks ps)")
  case False
  with assms show ?thesis
    by (simp add: close_ends_def)
next
  case True
  let ?w = "walks ps ! n"
  let ?logged = "ps\<lparr>trace := trace ps @ (case r of None \<Rightarrow> [] | Some e \<Rightarrow> [LogError e])\<rparr>"
  show ?thesis
  proof (cases "position ?w + 1 < length (walked (the_pool (sys ps)) ?w)")
    case False
    have sub: "set (take n (walks ps) @ drop (Suc n) (walks ps)) \<subseteq> set (walks ?logged)"
      by (auto dest: in_set_takeD in_set_dropD)
    have "process_inv ?logged"
      using assms by (simp add: inv_logged)
    from inv_cleanup_ends [OF this sub, of "for_exit ?w"] True False show ?thesis
      by (simp add: close_ends_def Let_def)
  next
    case step: True
    let ?w' = "?w\<lparr>position := position ?w + 1\<rparr>"
    have w: "?w \<in> set (walks ps)"
      using True by simp
    have "\<exists>w \<in> set (walks ps). orphan w' = orphan w" if "w' \<in> set ((walks ps)[n := ?w'])" for w'
    proof -
      from that set_update_subset_insert [of "walks ps" n ?w']
      have "w' = ?w' \<or> w' \<in> set (walks ps)"
        by blast
      then show ?thesis
      proof
        assume "w' = ?w'"
        then have "orphan w' = orphan ?w" by simp
        with w show ?thesis by blast
      next
        assume "w' \<in> set (walks ps)"
        then show ?thesis by blast
      qed
    qed
    then have "process_inv (?logged\<lparr>walks := (walks ps)[n := ?w'],
        trace := trace ?logged @ [CloseBrowser (walked (the_pool (sys ps)) ?w ! (position ?w + 1))]\<rparr>)"
      by (intro inv_walks [OF assms]) simp_all
    with True step show ?thesis
      by (simp add: close_ends_def Let_def)
  qed
qed

lemma inv_pool_event:
  assumes "process_inv ps"
  shows "process_inv (ps\<lparr>sys := step e (sys ps)\<rparr>)"
  using assms step_lost [of _ "sys ps" e] inv_step [of "sys ps" e]
  unfolding process_inv_def by simp

lemma running_pool_event:
  "running (PoolEvent e) ps
     = (if e = CallCleanup then cleanup_begins False ps else ps\<lparr>sys := step e (sys ps)\<rparr>)"
  by (cases e) simp_all

lemma inv_act: "process_inv ps \<Longrightarrow> process_inv (act a ps)"
proof (cases a)
  case (PoolEvent e)
  assume "process_inv ps"
  with PoolEvent show ?thesis
    by (simp only: act_def running_pool_event inv_cleanup_begins inv_pool_event split: if_splits)
      simp
next
  case Signal
  assume "process_inv ps"
  with Signal show ?thesis
    by (simp add: act_def inv_cleanup_begins)
next
  case (CloseEnds n r)
  assume "process_inv ps"
  with CloseEnds show ?thesis
    by (simp add: act_def inv_close_ends)
next
  case ProcessExit
  assume "process_inv ps"
  with ProcessExit show ?thesis
    by (simp add: act_def process_exit_def process_inv_def)
qed

lemma inv_perform: "process_inv ps \<Longrightarrow> process_inv (perform acts ps)"
  by (induction acts arbitrary: ps) (simp_all add: inv_act)

lemma closes_logged: "closes (case r of None \<Rightarrow> [] | Some e \<Rightarrow> [LogError e]) = []"
  by (simp split: option.splits)

text \<open>
  What one action adds to the trace: at most one call of \<open>browser.close()\<close>, on a browser
  that no caller holds, before and after the action.
\<close>

lemma act_closes_idle:
  assumes "process_inv ps"
  shows "\<exists>new. trace (act a ps) = trace ps @ new \<and> length (closes new) \<le> 1 \<and>
     (\<forall>b \<in> set (closes new). \<forall>c. cst (sys ps) c \<noteq> Holding b \<and>
        cst (sys (act a ps)) c \<noteq> Holding b)"
proof (cases "halted ps")
  case True
  then show ?thesis by (simp add: act_def)
next
  case False
  from assms have p: "pool_inv (sys ps)"
    by (simp add: process_inv_def)
  have idle: "\<forall>c. cst (sys ps) c \<noteq> Holding b" if "b \<in> set (browsers (the_pool (sys ps)))" for b
    using p that unfolding pool_inv_def by blast
  have begins: "\<exists>new. trace (cleanup_begins flag ps) = trace ps @ new \<and> length (closes new) \<le> 1 \<and>
     (\<forall>b \<in> set (closes new). \<forall>c. cst (sys ps) c \<noteq> Holding b \<and>
        cst (sys (cleanup_begins flag ps)) c \<noteq> Holding b)" for flag
  proof (cases "browsers (the_pool (sys ps))")
    case Nil
    then show ?thesis
      by (simp add: cleanup_begins_def cleanup_ends_def)
  next
    case (Cons b bs)
    with idle [of b] show ?thesis
      by (simp add: cleanup_begins_def)
  qed
  show ?thesis
  proof (cases a)
    case (PoolEvent e)
    with False begins [of False] show ?thesis
      by (cases e) (simp_all add: act_def)
  next
    case Signal
    with False begins [of True] show ?thesis
      by (simp add: act_def)
  next
    case (CloseEnds n r)
    show ?thesis
    proof (cases "n < length (walks ps)")
      case False
      with \<open>\<not> halted ps\<close> CloseEnds show ?thesis
        by (simp add: act_def close_ends_def)
    next
      case True
      let ?w = "walks ps ! n"
      let ?arr = "walked (the_pool (sys ps)) ?w"
      show ?thesis
      proof (cases "position ?w + 1 < length ?arr")
        case False
        with True \<open>\<not> halted ps\<close> CloseEnds show ?thesis
          by (simp add: act_def close_ends_def Let_def cleanup_ends_def closes_logged)
      next
        case step: True
        have mem: "?arr ! (position ?w + 1) \<in> set ?arr"
          using step by simp
        have w: "?w \<in> set (walks ps)"
          using True by simp
        have free: "\<forall>c. cst (sys ps) c \<noteq> Holding (?arr ! (position ?w + 1))"
        proof (cases "orphan ?w")
          case None
          with mem idle show ?thesis
            by (simp add: walked_def)
        next
          case (Some xs)
          with mem have "?arr ! (position ?w + 1) \<in> set xs"
            by (simp add: walked_def)
          with assms w Some show ?thesis
            unfolding process_inv_def by blast
        qed
        with True step \<open>\<not> halted ps\<close> CloseEnds show ?thesis
          by (simp add: act_def close_ends_def Let_def closes_append closes_logged)
      qed
    qed
  next
    case ProcessExit
    with False show ?thesis
      by (simp add: act_def process_exit_def)
  qed
qed

lemma act_returns:
  assumes "returned ps < returned (act a ps)"
  shows "browsers (the_pool (sys (act a ps))) = [] \<and>
     activeBrowsers (the_pool (sys (act a ps))) = 0 \<and>
     queue (the_pool (sys (act a ps))) = queue (the_pool (sys ps)) \<and>
     cst (sys (act a ps)) = cst (sys ps)"
proof -
  have ends: "browsers (the_pool (sys (cleanup_ends flag others qs))) = [] \<and>
     activeBrowsers (the_pool (sys (cleanup_ends flag others qs))) = 0 \<and>
     queue (the_pool (sys (cleanup_ends flag others qs))) = queue (the_pool (sys qs)) \<and>
     cst (sys (cleanup_ends flag others qs)) = cst (sys qs)" for flag others qs
    by (simp add: cleanup_ends_def step_cleanup_def cleanup_reset_def)
  have begins: "returned ps < returned (cleanup_begins flag ps) \<Longrightarrow> ?thesis
      = (browsers (the_pool (sys (cleanup_begins flag ps))) = [] \<and>
         activeBrowsers (the_pool (sys (cleanup_begins flag ps))) = 0 \<and>
         queue (the_pool (sys (cleanup_begins flag ps))) = queue (the_pool (sys ps)) \<and>
         cst (sys (cleanup_begins flag ps)) = cst (sys ps)) \<Longrightarrow> ?thesis" for flag
    using ends [of flag "walks ps" ps]
    by (cases "browsers (the_pool (sys ps))") (simp_all add: cleanup_begins_def)
  from assms have h: "\<not> halted ps"
    by (auto simp: act_def)
  show ?thesis
  proof (cases a)
    case (PoolEvent e)
    with assms h begins [of False] show ?thesis
      by (cases e) (simp_all add: act_def)
  next
    case Signal
    with assms h begins [of True] show ?thesis
      by (simp add: act_def)
  next
    case (CloseEnds n r)
    let ?logged = "ps\<lparr>trace := trace ps @ (case r of None \<Rightarrow> [] | Some e \<Rightarrow> [LogError e])\<rparr>"
    from assms h CloseEnds
    have "act a ps = cleanup_ends (for_exit (walks ps ! n))
        (take n (walks ps) @ drop (Suc n) (walks ps)) ?logged"
      by (auto simp: act_def close_ends_def Let_def split: if_splits)
    with ends [of "for_exit (walks ps ! n)" "take n (walks ps) @ drop (Suc n) (walks ps)" ?logged]
    show ?thesis by simp
  next
    case ProcessExit
    with assms h show ?thesis
      by (simp add: act_def process_exit_def split: if_splits)
  qed
qed

lemma halted_cleanup_begins: "halted (cleanup_begins flag ps) = halted ps"
  by (cases "browsers (the_pool (sys ps))") (simp_all add: cleanup_begins_def cleanup_ends_def)

lemma halted_close_ends: "halted (close_ends n r ps) = halted ps"
  by (simp add: close_ends_def Let_def cleanup_ends_def)

lemma act_halts:
  assumes "halted (act a ps)" and "\<not> halted ps"
  shows "a = ProcessExit \<and> 0 < returned ps \<and> trace (act a ps) = trace ps @ [Exit 0]"
proof (cases a)
  case (PoolEvent e)
  with assms show ?thesis
    by (cases e) (simp_all add: act_def halted_cleanup_begins)
next
  case Signal
  with assms show ?thesis
    by (simp add: act_def halted_cleanup_begins)
next
  case (CloseEnds n r)
  with assms show ?thesis
    by (simp add: act_def halted_close_ends)
next
  case ProcessExit
  with assms show ?thesis
    by (simp add: act_def process_exit_def split: if_splits)
qed

text \<open>
  A loop of \<open>cleanup\<close> that nothing interrupts: it waits for the close of the browser
  at position \<open>k\<close> of the idle list \<open>xs\<close>, and the closes end one after the other.
\<close>

lemma walk_alone:
  assumes "\<not> halted ps"
    and "walks ps = ws @ [\<lparr>position = k, orphan = None, for_exit = flag\<rparr>]"
    and "browsers (the_pool (sys ps)) = xs" and "k < length xs"
  shows "perform (map (\<lambda>b. CloseEnds (length ws) (browser_close_result w b 0)) (drop k xs)) ps
     = ps\<lparr>sys := step_cleanup (sys ps), walks := map (orphaned xs) ws,
          trace := trace ps @ tl (concat (map (cleanup_close w) (drop k xs))),
          returned := returned ps + (if flag then 1 else 0)\<rparr>"
  using assms
proof (induction "length xs - k" arbitrary: k ps)
  case 0
  then show ?case by simp
next
  case (Suc d)
  let ?r = "browser_close_result w (xs ! k) 0"
  let ?n = "length ws"
  have dk: "drop k xs = xs ! k # drop (Suc k) xs"
    using Suc.prems(4) by (simp add: Cons_nth_drop_Suc)
  have nth: "walks ps ! ?n = \<lparr>position = k, orphan = None, for_exit = flag\<rparr>"
    by (simp add: Suc.prems(2))
  have tlc: "tl (cleanup_close w (xs ! k)) = (case ?r of None \<Rightarrow> [] | Some e \<Rightarrow> [LogError e])"
    by (simp add: cleanup_close_def split: option.splits)
  show ?case
  proof (cases "Suc k < length xs")
    case False
    then have e: "drop (Suc k) xs = []"
      by simp
    have "act (CloseEnds ?n ?r) ps
       = ps\<lparr>sys := step_cleanup (sys ps), walks := map (orphaned xs) ws,
            trace := trace ps @ (case ?r of None \<Rightarrow> [] | Some e \<Rightarrow> [LogError e]),
            returned := returned ps + (if flag then 1 else 0)\<rparr>"
      using False Suc.prems
      by (simp add: act_def close_ends_def Let_def nth walked_def cleanup_ends_def)
    then show ?thesis
      by (simp add: dk e cleanup_close_def split: option.splits)
  next
    case True
    let ?ps' = "ps\<lparr>walks := ws @ [\<lparr>position = Suc k, orphan = None, for_exit = flag\<rparr>],
        trace := trace ps @ (case ?r of None \<Rightarrow> [] | Some e \<Rightarrow> [LogError e])
          @ [CloseBrowser (xs ! Suc k)]\<rparr>"
    have a: "act (CloseEnds ?n ?r) ps = ?ps'"
      using True Suc.prems
      by (simp add: act_def close_ends_def Let_def nth walked_def)
    have d: "d = length xs - Suc k"
      using Suc.hyps(2) by simp
    have dsk: "drop (Suc k) xs = xs ! Suc k # drop (Suc (Suc k)) xs"
      using True by (simp add: Cons_nth_drop_Suc)
    have "perform (map (\<lambda>b. CloseEnds ?n (browser_close_result w b 0)) (drop (Suc k) xs)) ?ps'
       = ?ps'\<lparr>sys := step_cleanup (sys ?ps'), walks := map (orphaned xs) ws,
            trace := trace ?ps' @ tl (concat (map (cleanup_close w) (drop (Suc k) xs))),
            returned := returned ?ps' + (if flag then 1 else 0)\<rparr>"
      using Suc.prems True by (intro Suc.hyps(1) [OF d]) simp_all
    then show ?thesis
      by (simp add: dk [unfolded dsk] dsk a tlc cleanup_close_def split: option.splits)
  qed
qed

text \<open>
  A signal in a process where nothing else runs until the exit: the closes are those of
  one whole call of \<open>cleanup\<close>.
\<close>

lemma signal_alone:
  assumes "\<not> halted ps"
  shows "perform (Signal # map (\<lambda>b. CloseEnds (length (walks ps)) (browser_close_result w b 0))
           (browsers (the_pool (sys ps))) @ [ProcessExit]) ps
     = ps\<lparr>sys := step_cleanup (sys ps),
          walks := map (orphaned (browsers (the_pool (sys ps)))) (walks ps),
          trace := trace ps @ snd (cleanup w (the_pool (sys ps))) @ [Exit 0],
          returned := returned ps + 1, halted := True\<rparr>"
proof (cases "browsers (the_pool (sys ps))")
  case Nil
  with assms show ?thesis
    by (simp add: act_def cleanup_begins_def cleanup_ends_def process_exit_def cleanup_def)
next
  case (Cons b bs)
  let ?xs = "browsers (the_pool (sys ps))"
  let ?ps' = "ps\<lparr>walks := walks ps @ [\<lparr>position = 0, orphan = None, for_exit = True\<rparr>],
      trace := trace ps @ [CloseBrowser b]\<rparr>"
  have s: "act Signal ps = ?ps'"
    using assms Cons by (simp add: act_def cleanup_begins_def)
  have "perform (map (\<lambda>b. CloseEnds (length (walks ps)) (browser_close_result w b 0)) (drop 0 ?xs)) ?ps'
     = ?ps'\<lparr>sys := step_cleanup (sys ?ps'), walks := map (orphaned ?xs) (walks ps),
          trace := trace ?ps' @ tl (concat (map (cleanup_close w) (drop 0 ?xs))),
          returned := returned ?ps' + (if True then 1 else 0)\<rparr>"
    using assms Cons by (intro walk_alone) simp_all
  then have w: "perform (map (\<lambda>b. CloseEnds (length (walks ps)) (browser_close_result w b 0)) ?xs) ?ps'
     = ps\<lparr>sys := step_cleanup (sys ps), walks := map (orphaned ?xs) (walks ps),
          trace := trace ps @ concat (map (cleanup_close w) ?xs),
          returned := returned ps + 1\<rparr>"
    using Cons by (simp add: cleanup_close_def split: option.splits)
  have split: "perform (as @ bs) qs = perform bs (perform as qs)" for as bs qs
    by (induction as arbitrary: qs) simp_all
  have "perform (Signal # map (\<lambda>b. CloseEnds (length (walks ps)) (browser_close_result w b 0)) ?xs
          @ [ProcessExit]) ps
      = act ProcessExit
          (perform (map (\<lambda>b. CloseEnds (length (walks ps)) (browser_close_result w b 0)) ?xs) ?ps')"
    by (simp only: perform.simps append_Cons split s)
  also have "\<dots> = act ProcessExit (ps\<lparr>sys := step_cleanup (sys ps),
          walks := map (orphaned ?xs) (walks ps),
          trace := trace ps @ concat (map (cleanup_close w) ?xs),
          returned := returned ps + 1\<rparr>)"
    by (simp only: w)
  finally show ?thesis
    using assms by (simp add: act_def process_exit_def cleanup_def)
qed

lemma perform_append: "perform (as @ bs) ps = perform bs (perform as ps)"
  by (induction as arbitrary: ps) simp_all

text \<open>
  A handler is at work (its \<open>cleanup\<close> runs or has returned, or the process has exited)
  only if a signal has come.
\<close>

lemma handler_act:
  assumes "a \<noteq> Signal"
    and "halted (act a ps) \<or> 0 < returned (act a ps) \<or> (\<exists>w \<in> set (walks (act a ps)). for_exit w)"
  shows "halted ps \<or> 0 < returned ps \<or> (\<exists>w \<in> set (walks ps). for_exit w)"
proof (cases "halted ps")
  case True
  then show ?thesis by simp
next
  case False
  have ends: "0 < returned qs \<or> (\<exists>w \<in> set (walks ps). for_exit w)"
    if "0 < returned (cleanup_ends flag others qs) \<or>
        (\<exists>w \<in> set (walks (cleanup_ends flag others qs)). for_exit w)"
      and "flag \<longrightarrow> (\<exists>w \<in> set (walks ps). for_exit w)" and "set others \<subseteq> set (walks ps)"
    for flag others qs
  proof -
    have "for_exit (orphaned xs w) = for_exit w" for xs w
      by (simp add: orphaned_def split: option.splits)
    with that show ?thesis
      by (auto simp: cleanup_ends_def split: if_splits)
  qed
  show ?thesis
  proof (cases a)
    case (PoolEvent e)
    show ?thesis
    proof (cases "e = CallCleanup")
      case True
      show ?thesis
      proof (cases "browsers (the_pool (sys ps))")
        case Nil
        with assms(2) False PoolEvent True ends [of False "walks ps" ps] show ?thesis
          by (simp add: act_def cleanup_begins_def halted_cleanup_begins cleanup_ends_def)
      next
        case (Cons b bs)
        with assms(2) False PoolEvent True show ?thesis
          by (auto simp: act_def cleanup_begins_def)
      qed
    next
      case other: False
      with assms(2) False PoolEvent show ?thesis
        by (simp add: act_def running_pool_event)
    qed
  next
    case Signal
    with assms(1) show ?thesis by simp
  next
    case (CloseEnds n r)
    show ?thesis
    proof (cases "n < length (walks ps)")
      case out: False
      with assms(2) False CloseEnds show ?thesis
        by (simp add: act_def close_ends_def)
    next
      case True
      let ?w = "walks ps ! n"
      let ?logged = "ps\<lparr>trace := trace ps @ (case r of None \<Rightarrow> [] | Some e \<Rightarrow> [LogError e])\<rparr>"
      have w: "?w \<in> set (walks ps)"
        using True by simp
      show ?thesis
      proof (cases "position ?w + 1 < length (walked (the_pool (sys ps)) ?w)")
        case last: False
        have sub: "set (take n (walks ps) @ drop (Suc n) (walks ps)) \<subseteq> set (walks ps)"
          by (auto dest: in_set_takeD in_set_dropD)
        have "act a ps = cleanup_ends (for_exit ?w)
            (take n (walks ps) @ drop (Suc n) (walks ps)) ?logged"
          using \<open>\<not> halted ps\<close> CloseEnds True last
          by (simp add: act_def close_ends_def Let_def)
        with assms(2) halted_close_ends [of n r ps] \<open>\<not> halted ps\<close> CloseEnds
        have "0 < returned (cleanup_ends (for_exit ?w)
              (take n (walks ps) @ drop (Suc n) (walks ps)) ?logged) \<or>
            (\<exists>w \<in> set (walks (cleanup_ends (for_exit ?w)
              (take n (walks ps) @ drop (Suc n) (walks ps)) ?logged)). for_exit w)"
          by (simp add: act_def)
        from ends [OF this _ sub] w show ?thesis
          by auto
      next
        case step: True
        let ?w' = "?w\<lparr>position := position ?w + 1\<rparr>"
        have "\<exists>w \<in> set (walks ps). for_exit w" if "w' \<in> set ((walks ps)[n := ?w'])" "for_exit w'"
          for w'
        proof -
          from that(1) set_update_subset_insert [of "walks ps" n ?w']
          have "w' = ?w' \<or> w' \<in> set (walks ps)"
            by blast
          with that(2) w show ?thesis
            by auto
        qed
        with assms(2) \<open>\<not> halted ps\<close> CloseEnds True step show ?thesis
          by (auto simp: act_def close_ends_def Let_def)
      qed
    qed
  next
    case ProcessExit
    with assms(2) False show ?thesis
      by (simp add: act_def process_exit_def split: if_splits)
  qed
qed

lemma handler_after_signal:
  "halted (perform acts (boot m)) \<or> 0 < returned (perform acts (boot m)) \<or>
   (\<exists>w \<in> set (walks (perform acts (boot m))). for_exit w) \<Longrightarrow> Signal \<in> set acts"
proof (induction acts rule: rev_induct)
  case Nil
  then show ?case by (simp add: boot_def)
next
  case (snoc a acts)
  show ?case
  proof (cases "a = Signal")
    case True
    then show ?thesis by simp
  next
    case False
    from snoc.prems have "halted (act a (perform acts (boot m))) \<or>
        0 < returned (act a (perform acts (boot m))) \<or>
        (\<exists>w \<in> set (walks (act a (perform acts (boot m)))). for_exit w)"
      by (simp add: perform_append)
    from handler_act [OF False this] snoc.IH show ?thesis
      by simp
  qed
qed

text \<open>
  C8 (as amended). The handler of a signal waits for \<open>cleanup\<close> and then exits.
  \<open>cleanup\<close> walks the idle list as it is at each turn of its loop. When nothing else
  runs until the exit, it calls \<open>close()\<close> once on every browser of the idle list, in
  order, logs a close that fails and goes on, leaves the idle list empty and
  \<open>activeBrowsers\<close> at 0, and touches no caller; then the process exits. In every run,
  each step calls \<open>close()\<close> at most once, and only on a browser that no caller holds at
  that moment: \<open>close()\<close> is not called on a browser that is on loan. When a \<open>cleanup\<close>
  called by a handler returns, the idle list is empty and \<open>activeBrowsers\<close> is 0. The
  process exits only by \<open>process.exit(0)\<close> after such a return, so only after a signal.
\<close>

theorem signal_closes_idle:
  "(\<not> halted ps \<longrightarrow>
      trace (perform (Signal # map (\<lambda>b. CloseEnds (length (walks ps)) (browser_close_result w b 0))
               (browsers (the_pool (sys ps))) @ [ProcessExit]) ps)
        = trace ps @ snd (cleanup w (the_pool (sys ps))) @ [Exit 0] \<and>
      the_pool (sys (perform (Signal # map (\<lambda>b. CloseEnds (length (walks ps))
               (browser_close_result w b 0)) (browsers (the_pool (sys ps))) @ [ProcessExit]) ps))
        = fst (cleanup w (the_pool (sys ps))) \<and>
      cst (sys (perform (Signal # map (\<lambda>b. CloseEnds (length (walks ps))
               (browser_close_result w b 0)) (browsers (the_pool (sys ps))) @ [ProcessExit]) ps))
        = cst (sys ps) \<and>
      halted (perform (Signal # map (\<lambda>b. CloseEnds (length (walks ps))
               (browser_close_result w b 0)) (browsers (the_pool (sys ps))) @ [ProcessExit]) ps)) \<and>
   (\<exists>new. trace (act a (perform acts (boot m))) = trace (perform acts (boot m)) @ new \<and>
      length (closes new) \<le> 1 \<and>
      (\<forall>b \<in> set (closes new). \<forall>c. cst (sys (perform acts (boot m))) c \<noteq> Holding b \<and>
         cst (sys (act a (perform acts (boot m)))) c \<noteq> Holding b)) \<and>
   (returned qs < returned (act a qs) \<longrightarrow>
      browsers (the_pool (sys (act a qs))) = [] \<and>
      activeBrowsers (the_pool (sys (act a qs))) = 0 \<and>
      queue (the_pool (sys (act a qs))) = queue (the_pool (sys qs)) \<and>
      cst (sys (act a qs)) = cst (sys qs)) \<and>
   (halted (act a qs) \<and> \<not> halted qs \<longrightarrow>
      a = ProcessExit \<and> 0 < returned qs \<and> trace (act a qs) = trace qs @ [Exit 0]) \<and>
   (halted (perform acts (boot m)) \<or> 0 < returned (perform acts (boot m)) \<longrightarrow>
      Signal \<in> set acts)"
proof -
  let ?done = "perform (Signal # map (\<lambda>b. CloseEnds (length (walks ps))
      (browser_close_result w b 0)) (browsers (the_pool (sys ps))) @ [ProcessExit]) ps"
  have c1: "\<not> halted ps \<longrightarrow>
      trace ?done = trace ps @ snd (cleanup w (the_pool (sys ps))) @ [Exit 0] \<and>
      the_pool (sys ?done) = fst (cleanup w (the_pool (sys ps))) \<and>
      cst (sys ?done) = cst (sys ps) \<and> halted ?done"
  proof
    assume "\<not> halted ps"
    from signal_alone [OF this, of w]
    show "trace ?done = trace ps @ snd (cleanup w (the_pool (sys ps))) @ [Exit 0] \<and>
      the_pool (sys ?done) = fst (cleanup w (the_pool (sys ps))) \<and>
      cst (sys ?done) = cst (sys ps) \<and> halted ?done"
      by (simp add: step_cleanup_def cleanup_def)
  qed
  have c2: "\<exists>new. trace (act a (perform acts (boot m))) = trace (perform acts (boot m)) @ new \<and>
      length (closes new) \<le> 1 \<and>
      (\<forall>b \<in> set (closes new). \<forall>c. cst (sys (perform acts (boot m))) c \<noteq> Holding b \<and>
         cst (sys (act a (perform acts (boot m)))) c \<noteq> Holding b)"
    by (rule act_closes_idle) (rule inv_perform, rule inv_boot)
  have c3: "returned qs < returned (act a qs) \<longrightarrow>
      browsers (the_pool (sys (act a qs))) = [] \<and>
      activeBrowsers (the_pool (sys (act a qs))) = 0 \<and>
      queue (the_pool (sys (act a qs))) = queue (the_pool (sys qs)) \<and>
      cst (sys (act a qs)) = cst (sys qs)"
    using act_returns [of qs a] by blast
  have c4: "halted (act a qs) \<and> \<not> halted qs \<longrightarrow>
      a = ProcessExit \<and> 0 < returned qs \<and> trace (act a qs) = trace qs @ [Exit 0]"
    using act_halts [of a qs] by blast
  have c5: "halted (perform acts (boot m)) \<or> 0 < returned (perform acts (boot m)) \<longrightarrow>
      Signal \<in> set acts"
    using handler_after_signal [of acts m] by blast
  from c1 c2 c3 c4 c5 show ?thesis
    by (intro conjI)
qed

lemmas process_defs = act_def cleanup_begins_def cleanup_ends_def close_ends_def
  process_exit_def walked_def orphaned_def boot_def

text \<open>
  C8 as stated fails: caller 0 holds browser 0 when the signal comes; the process exits
  with the browser still on loan and never closed.
\<close>

theorem signal_counterexample:
  "halted (perform [PoolEvent (CallGet 0), PoolEvent (LaunchDone 0 True), Signal, ProcessExit]
      (boot 3)) \<and>
   cst (sys (perform [PoolEvent (CallGet 0), PoolEvent (LaunchDone 0 True), Signal, ProcessExit]
      (boot 3))) 0 = Holding 0 \<and>
   trace (perform [PoolEvent (CallGet 0), PoolEvent (LaunchDone 0 True), Signal, ProcessExit]
      (boot 3)) = [Exit 0]"
  by (simp add: process_defs step_defs)

lemma two_idle_state:
  "two_idle = \<lparr>sys = \<lparr>the_pool = \<lparr>maxSize = 3, browsers = [0, 1], queue = [], activeBrowsers = 2\<rparr>,
       cst = (\<lambda>c. Out)(0 := Launching, 0 := Holding 0, 1 := Launching, 1 := Holding 1,
         0 := Out, 1 := Out), fresh = 2\<rparr>,
     walks = [], trace = [], returned = 0, halted = False\<rparr>"
  by (simp add: two_idle_def process_defs step_defs)

lemma one_on_loan_state:
  "perform one_on_loan (boot 3)
     = \<lparr>sys = \<lparr>the_pool = \<lparr>maxSize = 3, browsers = [1], queue = [], activeBrowsers = 2\<rparr>,
       cst = (\<lambda>c. Out)(0 := Launching, 0 := Holding 0, 1 := Launching, 1 := Holding 1,
         1 := Out), fresh = 2\<rparr>,
     walks = [], trace = [], returned = 0, halted = False\<rparr>"
  by (simp add: one_on_loan_def process_defs step_defs)

text \<open>
  A browser that is idle when the signal comes can be lent while its close is under way:
  the loop has called \<open>close()\<close> on browser 0, and caller 1 takes it from the idle list.
\<close>

lemma lent_while_closing:
  "trace (perform [PoolEvent (CallGet 0), PoolEvent (LaunchDone 0 True),
      PoolEvent (CallRelease 0 True), Signal, PoolEvent (CallGet 1)] (boot 3)) = [CloseBrowser 0] \<and>
   cst (sys (perform [PoolEvent (CallGet 0), PoolEvent (LaunchDone 0 True),
      PoolEvent (CallRelease 0 True), Signal, PoolEvent (CallGet 1)] (boot 3))) 1 = Holding 0"
  by (simp add: process_defs step_defs)

text \<open>
  Two idle browsers, the close of the second fails: both are closed, the failure is
  logged, the pool is reset and the process exits. And browser 0, on loan when the signal
  comes and released while the loop waits for the close of browser 1, is closed by the
  loop at its next turn.
\<close>

theorem signal_closes_idle_witness:
  "\<not> halted two_idle \<and>
   browsers (the_pool (sys two_idle)) = [0, 1] \<and>
   trace (perform [Signal, CloseEnds 0 None,
       CloseEnds 0 (Some ''Protocol error: Connection closed''), ProcessExit] two_idle)
     = [CloseBrowser 0, CloseBrowser 1, LogError ''Protocol error: Connection closed'', Exit 0] \<and>
   the_pool (sys (perform [Signal, CloseEnds 0 None,
       CloseEnds 0 (Some ''Protocol error: Connection closed''), ProcessExit] two_idle))
     = \<lparr>maxSize = 3, browsers = [], queue = [], activeBrowsers = 0\<rparr> \<and>
   halted (perform [Signal, CloseEnds 0 None,
       CloseEnds 0 (Some ''Protocol error: Connection closed''), ProcessExit] two_idle) \<and>
   cst (sys (perform (one_on_loan @ [Signal]) (boot 3))) 0 = Holding 0 \<and>
   trace (perform (one_on_loan @ [Signal, PoolEvent (CallRelease 0 True)]) (boot 3))
     = [CloseBrowser 1] \<and>
   trace (act (CloseEnds 0 None)
       (perform (one_on_loan @ [Signal, PoolEvent (CallRelease 0 True)]) (boot 3)))
     = [CloseBrowser 1, CloseBrowser 0] \<and>
   cst (sys (perform (one_on_loan @ [Signal, PoolEvent (CallRelease 0 True)]) (boot 3))) 0
     \<noteq> Holding 0 \<and>
   returned (act Signal (boot 3)) = 1 \<and>
   browsers (the_pool (sys (act Signal (boot 3)))) = [] \<and>
   halted (act ProcessExit (act Signal (boot 3))) \<and>
   trace (act ProcessExit (act Signal (boot 3))) = [Exit 0]"
proof -
  have h: "\<not> halted two_idle"
    by (simp add: two_idle_state)
  have b: "browsers (the_pool (sys two_idle)) = [0, 1]"
    by (simp add: two_idle_state)
  have acts: "Signal # map (\<lambda>b. CloseEnds (length (walks two_idle))
        (browser_close_result world_stuck b 0)) (browsers (the_pool (sys two_idle)))
        @ [ProcessExit]
      = [Signal, CloseEnds 0 None, CloseEnds 0 (Some ''Protocol error: Connection closed''),
         ProcessExit]"
    by (simp add: two_idle_state world_stuck_def world_ok_def)
  have cl: "snd (cleanup world_stuck (the_pool (sys two_idle)))
      = [CloseBrowser 0, CloseBrowser 1, LogError ''Protocol error: Connection closed'']"
    "fst (cleanup world_stuck (the_pool (sys two_idle)))
      = \<lparr>maxSize = 3, browsers = [], queue = [], activeBrowsers = 0\<rparr>"
    by (simp_all add: two_idle_state cleanup_def cleanup_close_def cleanup_reset_def
        world_stuck_def world_ok_def)
  note alone = signal_closes_idle [of two_idle world_stuck Signal "[]" 3 "boot 3",
      THEN conjunct1, rule_format, OF h, unfolded acts cl]
  have t: "trace two_idle = []"
    by (simp add: two_idle_state)
  have 1: "trace (perform [Signal, CloseEnds 0 None,
       CloseEnds 0 (Some ''Protocol error: Connection closed''), ProcessExit] two_idle)
     = [CloseBrowser 0, CloseBrowser 1, LogError ''Protocol error: Connection closed'', Exit 0]"
    using alone [THEN conjunct1] by (simp add: t)
  have 2: "the_pool (sys (perform [Signal, CloseEnds 0 None,
       CloseEnds 0 (Some ''Protocol error: Connection closed''), ProcessExit] two_idle))
     = \<lparr>maxSize = 3, browsers = [], queue = [], activeBrowsers = 0\<rparr>"
    using alone [THEN conjunct2, THEN conjunct1] .
  have 3: "halted (perform [Signal, CloseEnds 0 None,
       CloseEnds 0 (Some ''Protocol error: Connection closed''), ProcessExit] two_idle)"
    using alone [THEN conjunct2, THEN conjunct2, THEN conjunct2] .
  let ?during = "perform (one_on_loan @ [Signal, PoolEvent (CallRelease 0 True)]) (boot 3)"
  have 4: "cst (sys (perform (one_on_loan @ [Signal]) (boot 3))) 0 = Holding 0"
    by (simp add: perform_append one_on_loan_state) (simp add: process_defs)
  have during: "?during
     = \<lparr>sys = \<lparr>the_pool = \<lparr>maxSize = 3, browsers = [1, 0], queue = [], activeBrowsers = 2\<rparr>,
       cst = (\<lambda>c. Out)(0 := Launching, 0 := Holding 0, 1 := Launching, 1 := Holding 1,
         1 := Out, 0 := Out), fresh = 2\<rparr>,
     walks = [\<lparr>position = 0, orphan = None, for_exit = True\<rparr>], trace = [CloseBrowser 1],
     returned = 0, halted = False\<rparr>"
    by (simp add: perform_append one_on_loan_state) (simp add: process_defs step_defs)
  have 5: "trace ?during = [CloseBrowser 1]"
    by (simp add: during)
  have 6: "trace (act (CloseEnds 0 None) ?during) = [CloseBrowser 1, CloseBrowser 0]"
    unfolding during by (simp add: process_defs)
  note safe = signal_closes_idle [of two_idle world_stuck "CloseEnds 0 None"
      "one_on_loan @ [Signal, PoolEvent (CallRelease 0 True)]" 3 "boot 3",
      THEN conjunct2, THEN conjunct1]
  have 7: "cst (sys ?during) 0 \<noteq> Holding 0"
  proof -
    from safe obtain new where n: "trace (act (CloseEnds 0 None) ?during) = trace ?during @ new"
      and f: "\<forall>b \<in> set (closes new). \<forall>c. cst (sys ?during) c \<noteq> Holding b \<and>
         cst (sys (act (CloseEnds 0 None) ?during)) c \<noteq> Holding b"
      by blast
    from n 5 6 have "new = [CloseBrowser 0]"
      by simp
    with f show ?thesis
      by simp
  qed
  note returns = signal_closes_idle [of two_idle world_stuck Signal "[]" 3 "boot 3",
      THEN conjunct2, THEN conjunct2, THEN conjunct1]
  have 8: "returned (act Signal (boot 3)) = 1"
    by (simp add: process_defs step_defs)
  have 9: "browsers (the_pool (sys (act Signal (boot 3)))) = []"
    using returns 8 by (simp add: boot_def)
  note exits = signal_closes_idle [of two_idle world_stuck ProcessExit "[]" 3 "act Signal (boot 3)",
      THEN conjunct2, THEN conjunct2, THEN conjunct2, THEN conjunct1]
  have 10: "halted (act ProcessExit (act Signal (boot 3)))"
    by (simp add: process_defs step_defs)
  have s: "\<not> halted (act Signal (boot 3))" "trace (act Signal (boot 3)) = []"
    by (simp_all add: process_defs step_defs)
  have 11: "trace (act ProcessExit (act Signal (boot 3))) = [Exit 0]"
    using exits 10 s by simp
  from h b 1 2 3 4 5 6 7 8 9 10 11 show ?thesis
    by (intro conjI)
qed

end
